theory Spec2Isabelle
  imports Main "HOL-Library.Word" "HOL-Library.AList"
begin

text \<open>
  A model of the Veritas receipt service: the HTTP server (\<open>http-server.ts\<close>: witnessing,
  verification, the settlement timer), the settler (\<open>arweave-settler.ts\<close>) and the AO
  ledger process (\<open>veritas-process.lua\<close>). Each function of the sources is a function
  here under its own name; module-level state is passed in and returned.
\<close>

section \<open>JavaScript values used by the HTTP server and the settler\<close>

text \<open>
  An optional JavaScript string is a \<open>string option\<close>: \<open>None\<close> is \<open>undefined\<close>
  (a field that is missing). \<open>falsy v\<close> is \<open>!v\<close>: a missing field and the empty string
  are falsy, every other string is truthy. \<open>or_null v\<close> is \<open>v || null\<close>.
  Strings are lists of code units; the model covers code units below 256.
\<close>

definition falsy :: "string option \<Rightarrow> bool" where
  "falsy v = (case v of None \<Rightarrow> True | Some s \<Rightarrow> s = [])"

definition or_null :: "string option \<Rightarrow> string option" where
  "or_null v = (if falsy v then None else v)"

text \<open>
  A JavaScript \<open>Map\<close> keeps its entries in insertion order: \<open>set\<close> on a key that is
  present replaces the value in place, on a new key it appends; \<open>delete\<close> removes the
  entry; \<open>values()\<close> lists the values in that order. An association list with
  \<open>AList.update\<close> and \<open>AList.delete\<close> does the same.
\<close>

definition map_get :: "('k \<times> 'v) list \<Rightarrow> 'k \<Rightarrow> 'v option" where
  "map_get m k = map_of m k"

definition map_set :: "'k \<Rightarrow> 'v \<Rightarrow> ('k \<times> 'v) list \<Rightarrow> ('k \<times> 'v) list" where
  "map_set k v m = AList.update k v m"

definition map_delete :: "'k \<Rightarrow> ('k \<times> 'v) list \<Rightarrow> ('k \<times> 'v) list" where
  "map_delete k m = AList.delete k m"

definition map_values :: "('k \<times> 'v) list \<Rightarrow> 'v list" where
  "map_values m = map snd m"

definition map_keys :: "('k \<times> 'v) list \<Rightarrow> 'k set" where
  "map_keys m = fst ` set m"

text \<open>Decimal and hexadecimal rendering of numbers (template strings, \<open>toString(16)\<close>).\<close>

definition digit_char :: "nat \<Rightarrow> char" where
  "digit_char d = ''0123456789abcdef'' ! d"

function to_base :: "nat \<Rightarrow> nat \<Rightarrow> string" where
  "to_base b n =
     (if b < 2 \<or> n < b then [digit_char n] else to_base b (n div b) @ [digit_char (n mod b)])"
  by pat_completeness auto
termination
  by (relation "measure (\<lambda>(b, n). n)") auto

declare to_base.simps [simp del]

definition show_int :: "int \<Rightarrow> string" where
  "show_int i = (if i < 0 then CHR ''-'' # to_base 10 (nat (- i)) else to_base 10 (nat i))"

section \<open>The HTTP server: data model\<close>

record WitnessRequest =
  context_text :: string
  logic :: string
  action :: string
  agent_id :: "string option"

datatype Status = Pending | Settled | Failed

record WitnessReceipt =
  receipt_id :: string
  signature :: string
  timestamp_ms :: int
  hash :: string
  arweave_tx :: "string option"
  status :: Status

record PendingReceipt = WitnessReceipt +
  full_payload :: WitnessRequest

text \<open>The server state: the two module-level maps.\<close>

record Server =
  pendingReceipts :: "(string \<times> PendingReceipt) list"
  settledReceipts :: "(string \<times> WitnessReceipt) list"

definition initial_server :: Server where
  "initial_server = \<lparr>pendingReceipts = [], settledReceipts = []\<rparr>"

section \<open>The signer\<close>

text \<open>
  Node's \<open>crypto\<close> module and the process keypair are outside the repository; they are
  parameters of the model. \<open>digest\<close> is SHA-256 in hex over \<open>JSON.stringify\<close> of the
  object \<open>hashWitnessRequest\<close> builds; \<open>sign\<close> is \<open>createSign("SHA256")\<close> with the private
  key (ECDSA draws a fresh nonce at each call, the \<open>nat\<close> argument); \<open>verify\<close> is
  \<open>createVerify("SHA256")\<close> with the public key; \<open>public_key_pem\<close> is the exported key.
\<close>

record HashInput =
  h_context :: string
  h_logic :: string
  h_action :: string
  h_agent_id :: "string option"
  h_timestamp_ms :: int

record Crypto =
  digest :: "HashInput \<Rightarrow> string"
  sign :: "nat \<Rightarrow> string \<Rightarrow> string"
  verify :: "string \<Rightarrow> string \<Rightarrow> bool"
  public_key_pem :: string

definition generateReceiptId :: "string \<Rightarrow> string" where
  "generateReceiptId h = ''vts_'' @ take 16 h"

definition hashWitnessRequest :: "Crypto \<Rightarrow> WitnessRequest \<Rightarrow> int \<Rightarrow> string" where
  "hashWitnessRequest K request ts =
     digest K \<lparr>h_context = context_text request, h_logic = logic request,
       h_action = action request, h_agent_id = or_null (agent_id request),
       h_timestamp_ms = ts\<rparr>"

definition signHash :: "Crypto \<Rightarrow> nat \<Rightarrow> string \<Rightarrow> string" where
  "signHash K nonce h = sign K nonce h"

definition verifySignature :: "Crypto \<Rightarrow> string \<Rightarrow> string \<Rightarrow> bool" where
  "verifySignature K h s = verify K h s"

section \<open>Witnessing and verification\<close>

text \<open>
  \<open>witnessDecision\<close> reads the clock (\<open>now\<close> is what \<open>Date.now()\<close> returns), hashes,
  derives the id, signs, and stores the receipt with its payload in the pending map.
  It returns the receipt and the new state.
\<close>

definition witnessDecision ::
  "Crypto \<Rightarrow> int \<Rightarrow> nat \<Rightarrow> WitnessRequest \<Rightarrow> Server \<Rightarrow> WitnessReceipt \<times> Server" where
  "witnessDecision K now nonce request st =
     (let h = hashWitnessRequest K request now;
          rid = generateReceiptId h;
          sg = signHash K nonce h;
          receipt = \<lparr>receipt_id = rid, signature = sg, timestamp_ms = now, hash = h,
                      arweave_tx = None, status = Pending\<rparr>;
          pendingReceipt = WitnessReceipt.extend receipt
                             (PendingReceipt.fields request)
      in (receipt, st\<lparr>pendingReceipts := map_set rid pendingReceipt (pendingReceipts st)\<rparr>))"

record VerifyResult =
  valid :: bool
  receipt :: "WitnessReceipt option"
  message :: string

definition verifyReceipt :: "Crypto \<Rightarrow> Server \<Rightarrow> string \<Rightarrow> VerifyResult" where
  "verifyReceipt K st rid =
     (case map_get (settledReceipts st) rid of
        Some settled \<Rightarrow>
          (let v = verifySignature K (hash settled) (signature settled)
           in \<lparr>valid = v, receipt = Some settled,
               message = (if v then ''Receipt verified and settled'' else ''Invalid signature'')\<rparr>)
      | None \<Rightarrow>
          (case map_get (pendingReceipts st) rid of
             Some pending \<Rightarrow>
               (let v = verifySignature K (hash pending) (signature pending)
                in \<lparr>valid = v, receipt = Some (WitnessReceipt.truncate pending),
                    message = (if v then ''Receipt verified, settlement pending''
                               else ''Invalid signature'')\<rparr>)
           | None \<Rightarrow> \<lparr>valid = False, receipt = None, message = ''Receipt not found''\<rparr>))"

section \<open>The Ledger Client (settler)\<close>

datatype ResultStatus = RSettled | RFailed

record SettlementResult =
  res_receipt_id :: string
  res_arweave_tx :: "string option"
  ao_message_id :: "string option"
  res_status :: ResultStatus
  res_error :: "string option"

text \<open>
  \<open>hashString\<close>: the loop keeps a 32-bit integer (\<open>hash & hash\<close> wraps it), so it is a
  \<open>32 word\<close>; \<open>Math.abs\<close> is taken of its signed value and printed in base 16.
\<close>

fun hashString_loop :: "32 word \<Rightarrow> string \<Rightarrow> 32 word" where
  "hashString_loop h [] = h"
| "hashString_loop h (c # cs) = hashString_loop ((push_bit 5 h - h) + of_nat (of_char c)) cs"

definition hashString :: "string \<Rightarrow> string" where
  "hashString str = to_base 16 (nat \<bar>sint (hashString_loop 0 str)\<bar>)"

text \<open>The per-receipt summary and the batch the settler sends to the AO process.\<close>

record BatchEntry =
  b_receipt_id :: string
  b_hash :: string
  b_signature :: string
  b_timestamp_ms :: int
  context_hash :: string
  logic_summary :: string
  b_action :: string
  b_agent_id :: "string option"

record BatchPayload =
  b_type :: string
  b_count :: nat
  b_receipts :: "BatchEntry list"
  settled_at :: int

definition batch_entry :: "PendingReceipt \<Rightarrow> BatchEntry" where
  "batch_entry r =
     \<lparr>b_receipt_id = receipt_id r, b_hash = hash r, b_signature = signature r,
      b_timestamp_ms = timestamp_ms r,
      context_hash = hashString (context_text (full_payload r)),
      logic_summary = take 200 (logic (full_payload r)),
      b_action = action (full_payload r),
      b_agent_id = or_null (agent_id (full_payload r))\<rparr>"

definition batchPayload :: "int \<Rightarrow> PendingReceipt list \<Rightarrow> BatchPayload" where
  "batchPayload now receipts =
     \<lparr>b_type = ''VeritasReceiptBatch'', b_count = length receipts,
      b_receipts = map batch_entry receipts, settled_at = now\<rparr>"

text \<open>
  The configuration the settler reads at each call: the environment variable
  \<open>VERITAS_PROCESS_ID\<close> and what \<open>loadWallet\<close> finds (the wallet file's text, or nothing).
  \<open>Net\<close> is how \<open>message\<close> followed by \<open>result\<close> ends: both return and the message id is
  kept (the settler does not read what the process replied), or one of them throws.
  \<open>clock\<close> stands for \<open>Date.now()\<close>: \<open>clock n\<close> is what the \<open>n\<close>-th reading of the clock
  during one call of the settler returns, counted from 0.
\<close>

record Config =
  VERITAS_PROCESS_ID :: "string option"
  loadWallet :: "string option"

datatype Net = Acked string | Threw string

text \<open>
  A simulated result: the clock is read once for \<open>arweave_tx\<close> and once more for
  \<open>ao_message_id\<close>.
\<close>

definition simulated :: "int \<Rightarrow> int \<Rightarrow> PendingReceipt \<Rightarrow> SettlementResult" where
  "simulated t_tx t_msg r =
     \<lparr>res_receipt_id = receipt_id r,
      res_arweave_tx = Some (''sim_'' @ show_int t_tx @ ''_'' @ receipt_id r),
      ao_message_id = Some (''sim_msg_'' @ show_int t_msg),
      res_status = RSettled, res_error = None\<rparr>"

text \<open>
  The loop of the first early return: two readings of the clock for each receipt, so
  the receipt at position \<open>i\<close> of the batch gets readings \<open>2 i\<close> and \<open>2 i + 1\<close>.
\<close>

fun simulate_all :: "(nat \<Rightarrow> int) \<Rightarrow> nat \<Rightarrow> PendingReceipt list \<Rightarrow> SettlementResult list" where
  "simulate_all clock n [] = []"
| "simulate_all clock n (r # rs) =
     simulated (clock n) (clock (Suc n)) r # simulate_all clock (Suc (Suc n)) rs"

definition failed_result :: "string \<Rightarrow> PendingReceipt \<Rightarrow> SettlementResult" where
  "failed_result e r =
     \<lparr>res_receipt_id = receipt_id r, res_arweave_tx = None, ao_message_id = None,
      res_status = RFailed, res_error = Some e\<rparr>"

definition settled_result :: "string \<Rightarrow> PendingReceipt \<Rightarrow> SettlementResult" where
  "settled_result messageId r =
     \<lparr>res_receipt_id = receipt_id r, res_arweave_tx = Some messageId,
      ao_message_id = Some messageId, res_status = RSettled, res_error = None\<rparr>"

text \<open>
  The two early returns of \<open>settleToArweave\<close>, taken before anything is sent:
  no process id gives simulated results, no wallet gives failed results.
\<close>

definition config_results ::
  "Config \<Rightarrow> (nat \<Rightarrow> int) \<Rightarrow> PendingReceipt list \<Rightarrow> SettlementResult list option" where
  "config_results cfg clock receipts =
     (case or_null (VERITAS_PROCESS_ID cfg) of
        None \<Rightarrow> Some (simulate_all clock 0 receipts)
      | Some targetProcess \<Rightarrow>
          (case loadWallet cfg of
             None \<Rightarrow> Some (map (failed_result ''No wallet configured'') receipts)
           | Some wallet \<Rightarrow> None))"

text \<open>The \<open>try\<close> block: every receipt settled under the message id, or every one failed.\<close>

definition net_results :: "Net \<Rightarrow> PendingReceipt list \<Rightarrow> SettlementResult list" where
  "net_results net receipts =
     (case net of
        Acked messageId \<Rightarrow> map (settled_result messageId) receipts
      | Threw errorMessage \<Rightarrow> map (failed_result errorMessage) receipts)"

definition settleToArweave ::
  "Config \<Rightarrow> (nat \<Rightarrow> int) \<Rightarrow> Net \<Rightarrow> PendingReceipt list \<Rightarrow> SettlementResult list" where
  "settleToArweave cfg clock net receipts =
     (case config_results cfg clock receipts of
        Some results \<Rightarrow> results
      | None \<Rightarrow> net_results net receipts)"

text \<open>
  What is sent to the ledger: a batch, when a process id and a wallet are configured.
  On this path the clock is read once, for \<open>settled_at\<close>.
\<close>

definition submitted ::
  "Config \<Rightarrow> (nat \<Rightarrow> int) \<Rightarrow> PendingReceipt list \<Rightarrow> BatchPayload option" where
  "submitted cfg clock receipts =
     (case config_results cfg clock receipts of
        Some results \<Rightarrow> None
      | None \<Rightarrow> Some (batchPayload (clock 0) receipts))"

section \<open>The settlement tick\<close>

definition promote :: "PendingReceipt \<Rightarrow> string option \<Rightarrow> WitnessReceipt" where
  "promote pending tx =
     \<lparr>receipt_id = receipt_id pending, signature = signature pending,
      timestamp_ms = timestamp_ms pending, hash = hash pending,
      arweave_tx = tx, status = Settled\<rparr>"

text \<open>The \<open>for\<close> loop of \<open>settleReceipts\<close> over the results.\<close>

fun apply_results :: "SettlementResult list \<Rightarrow> Server \<Rightarrow> Server" where
  "apply_results [] st = st"
| "apply_results (result # results) st =
     (case map_get (pendingReceipts st) (res_receipt_id result) of
        None \<Rightarrow> apply_results results st
      | Some pending \<Rightarrow>
          (if res_status result = RSettled
           then apply_results results
                  (st\<lparr>settledReceipts :=
                        map_set (res_receipt_id result) (promote pending (res_arweave_tx result))
                          (settledReceipts st),
                      pendingReceipts := map_delete (res_receipt_id result) (pendingReceipts st)\<rparr>)
           else apply_results results st))"

text \<open>One call of \<open>settleReceipts\<close> with nothing else running while it waits.\<close>

definition settleReceipts :: "Config \<Rightarrow> (nat \<Rightarrow> int) \<Rightarrow> Net \<Rightarrow> Server \<Rightarrow> Server" where
  "settleReceipts cfg clock net st =
     (if pendingReceipts st = [] then st
      else let batch = map_values (pendingReceipts st);
               results = settleToArweave cfg clock net batch
           in apply_results results st)"

section \<open>The HTTP request handler\<close>

text \<open>
  The parsed body of a request: text that is not JSON, the JSON value \<open>null\<close>, or a value
  whose properties can be read. Of an object only the four properties the handler reads
  are kept, each a string or missing; a number, a string, a boolean or an array has
  none of them. The path is \<open>url.pathname\<close>.
\<close>

record RawRequest =
  raw_context :: "string option"
  raw_logic :: "string option"
  raw_action :: "string option"
  raw_agent_id :: "string option"

datatype Body = BadJson | JsonNull | JsonObject RawRequest

record HttpRequest =
  http_method :: string
  pathname :: string
  body :: Body

datatype Payload =
    NoBody
  | ErrorBody string
  | HealthBody
  | WitnessBody WitnessReceipt
  | VerifyBody VerifyResult
  | InfoBody string nat nat
  | StatsBody nat nat nat

record Response =
  status_code :: nat
  payload :: Payload

definition str_of :: "string option \<Rightarrow> string" where
  "str_of v = (case v of None \<Rightarrow> [] | Some s \<Rightarrow> s)"

definition as_WitnessRequest :: "RawRequest \<Rightarrow> WitnessRequest" where
  "as_WitnessRequest raw =
     \<lparr>context_text = str_of (raw_context raw), logic = str_of (raw_logic raw),
      action = str_of (raw_action raw), agent_id = raw_agent_id raw\<rparr>"

definition sendJson :: "nat \<Rightarrow> Payload \<Rightarrow> Response" where
  "sendJson c d = \<lparr>status_code = c, payload = d\<rparr>"

definition handleRequest ::
  "Crypto \<Rightarrow> int \<Rightarrow> nat \<Rightarrow> Server \<Rightarrow> HttpRequest \<Rightarrow> Response \<times> Server" where
  "handleRequest K now nonce st req =
     (if http_method req = ''OPTIONS'' then (sendJson 204 NoBody, st)
      else if http_method req = ''POST'' \<and> body req = BadJson
        then (sendJson 400 (ErrorBody ''Invalid JSON''), st)
      else if pathname req = ''/'' \<or> pathname req = ''/health''
        then (sendJson 200 HealthBody, st)
      else if pathname req = ''/witness'' \<and> http_method req = ''POST'' then
        (case body req of
           BadJson \<Rightarrow> (sendJson 400 (ErrorBody ''Invalid JSON''), st)
         | JsonNull \<Rightarrow> (sendJson 500 (ErrorBody ''Internal server error''), st)
         | JsonObject raw \<Rightarrow>
             (if falsy (raw_context raw) \<or> falsy (raw_logic raw) \<or> falsy (raw_action raw)
              then (sendJson 400 (ErrorBody ''Missing required fields: context, logic, action''), st)
              else (case witnessDecision K now nonce (as_WitnessRequest raw) st of
                      (r, st') \<Rightarrow> (sendJson 200 (WitnessBody r), st'))))
      else if take 8 (pathname req) = ''/verify/'' \<and> http_method req = ''GET'' then
        (let result = verifyReceipt K st (drop 8 (pathname req))
         in (sendJson (if valid result then 200 else 404) (VerifyBody result), st))
      else if pathname req = ''/info'' \<and> http_method req = ''GET''
        then (sendJson 200 (InfoBody (public_key_pem K) (length (pendingReceipts st))
                              (length (settledReceipts st))), st)
      else if pathname req = ''/stats'' \<and> http_method req = ''GET''
        then (sendJson 200 (StatsBody (length (pendingReceipts st)) (length (settledReceipts st))
                              (length (pendingReceipts st) + length (settledReceipts st))), st)
      else (sendJson 404 (ErrorBody ''Not found''), st))"

section \<open>The event loop\<close>

text \<open>
  The server runs on one event loop. Its events are an HTTP request, a firing of the
  10-second interval timer, and the completion of the network calls of a tick that is
  waiting for the ledger. \<open>settleReceipts\<close> is \<open>async\<close>: it takes its snapshot, calls the
  settler and suspends at \<open>await\<close>; other events run until the settler's promise
  resolves, and then the loop over the results runs. \<open>in_flight\<close> holds the batch of every
  tick that is suspended on \<open>message\<close> or \<open>result\<close>. The interval callback
  (\<open>timer\<close>) tests only the size of the pending map, as the source does. A tick that
  takes one of the settler's early returns does no I/O; it resumes before any other event
  and is run in one step.
\<close>

record Sched =
  server :: Server
  in_flight :: "PendingReceipt list list"

definition timer :: "Config \<Rightarrow> (nat \<Rightarrow> int) \<Rightarrow> Sched \<Rightarrow> Sched" where
  "timer cfg clock s =
     (if pendingReceipts (server s) = [] then s
      else let batch = map_values (pendingReceipts (server s))
           in (case config_results cfg clock batch of
                 Some results \<Rightarrow> s\<lparr>server := apply_results results (server s)\<rparr>
               | None \<Rightarrow> s\<lparr>in_flight := in_flight s @ [batch]\<rparr>))"

definition completed :: "nat \<Rightarrow> Net \<Rightarrow> Sched \<Rightarrow> Sched" where
  "completed i net s =
     (if i < length (in_flight s)
      then s\<lparr>server := apply_results (net_results net (in_flight s ! i)) (server s),
             in_flight := take i (in_flight s) @ drop (Suc i) (in_flight s)\<rparr>
      else s)"

datatype Event =
    Http HttpRequest int nat
  | Timer Config "nat \<Rightarrow> int"
  | Completed nat Net

fun step :: "Crypto \<Rightarrow> Sched \<Rightarrow> Event \<Rightarrow> Sched" where
  "step K s (Http req now nonce) = s\<lparr>server := snd (handleRequest K now nonce (server s) req)\<rparr>"
| "step K s (Timer cfg clock) = timer cfg clock s"
| "step K s (Completed i net) = completed i net s"


definition run :: "Crypto \<Rightarrow> Event list \<Rightarrow> Sched \<Rightarrow> Sched" where
  "run K evs s = foldl (step K) s evs"

definition initial_sched :: Sched where
  "initial_sched = \<lparr>server = initial_server, in_flight = []\<rparr>"

section \<open>The ledger process (AO, Lua)\<close>

text \<open>
  A receipt as it arrives in a batch: a table whose fields are read by name; a field
  that is absent is \<open>nil\<close> (\<open>None\<close>). A stored receipt is the same fields with the
  message's timestamp and id. Lua tables keyed by receipt id are association lists
  looked up with \<open>map_of\<close>; the order of their entries is the order of insertion.
\<close>

record ReceiptIn =
  in_receipt_id :: "string option"
  in_hash :: "string option"
  in_signature :: "string option"
  in_timestamp_ms :: "int option"
  in_context_hash :: "string option"
  in_logic_summary :: "string option"
  in_action :: "string option"
  in_agent_id :: "string option"

record StoredReceipt = ReceiptIn +
  stored_at :: "int option"
  message_id :: "string option"

record State =
  Receipts :: "(string \<times> StoredReceipt) list"
  ReceiptCount :: nat
  Owner :: string
  Frozen :: bool
  Version :: string

definition initial_state :: "string \<Rightarrow> State" where
  "initial_state owner =
     \<lparr>Receipts = [], ReceiptCount = 0, Owner = owner, Frozen = False, Version = ''0.1.0''\<rparr>"

text \<open>
  A message: the sender, the \<open>Action\<close>, \<open>Receipt-Id\<close> and \<open>Limit\<close> tags (the last as
  \<open>tonumber\<close> reads it), the data text, the timestamp and the id. The JSON library is
  outside the repository: \<open>decode\<close>, a parameter, is \<open>json.decode\<close> under \<open>pcall\<close>
  and gives the decoded table (its \<open>receipts\<close> array and its \<open>receipt_id\<close>) or nothing.
\<close>

record Msg =
  From :: "string option"
  Action :: string
  Data :: "string option"
  Tag_Receipt_Id :: "string option"
  Tag_Limit :: "int option"
  Timestamp :: "int option"
  Msg_Id :: "string option"

record Decoded =
  receipts :: "ReceiptIn list option"
  d_receipt_id :: "string option"

datatype ReplyData =
    ErrorData string
  | ReceiptsStoredData nat nat
  | FrozenData bool
  | ReceiptData StoredReceipt
  | NotFoundData string string
  | ReceiptListData "(string \<times> int option \<times> int option) list" nat
  | VerificationResultData "string option" bool "int option" "string option" string
  | StatsData nat string bool string string

record Sent =
  Target :: string
  Sent_Action :: string
  Sent_Data :: ReplyData

text \<open>The receipt ids the table holds.\<close>

definition stored_ids :: "State \<Rightarrow> string set" where
  "stored_ids st = fst ` set (Receipts st)"

definition send_reply :: "Msg \<Rightarrow> string \<Rightarrow> ReplyData \<Rightarrow> Sent list" where
  "send_reply msg act d =
     (case From msg of
        None \<Rightarrow> []
      | Some sender \<Rightarrow> [\<lparr>Target = sender, Sent_Action = act, Sent_Data = d\<rparr>])"

definition is_owner :: "State \<Rightarrow> Msg \<Rightarrow> bool" where
  "is_owner st msg = (case From msg of None \<Rightarrow> False | Some sender \<Rightarrow> sender = Owner st)"

definition parse_data :: "(string \<Rightarrow> Decoded option) \<Rightarrow> Msg \<Rightarrow> Decoded option" where
  "parse_data decode msg =
     (case Data msg of
        None \<Rightarrow> None
      | Some d \<Rightarrow> if d \<noteq> [] then decode d else None)"

text \<open>The \<open>ipairs\<close> loop of \<open>StoreReceipts\<close>; it carries the state and \<open>stored_count\<close>.\<close>

definition stored_receipt :: "Msg \<Rightarrow> ReceiptIn \<Rightarrow> StoredReceipt" where
  "stored_receipt msg r = ReceiptIn.extend r (StoredReceipt.fields (Timestamp msg) (Msg_Id msg))"

fun store_loop :: "Msg \<Rightarrow> ReceiptIn list \<Rightarrow> State \<times> nat \<Rightarrow> State \<times> nat" where
  "store_loop msg [] (st, stored_count) = (st, stored_count)"
| "store_loop msg (r # rest) (st, stored_count) =
     (case in_receipt_id r of
        None \<Rightarrow> store_loop msg rest (st, stored_count)
      | Some rid \<Rightarrow>
          (case map_of (Receipts st) rid of
             Some existing \<Rightarrow> store_loop msg rest (st, stored_count)
           | None \<Rightarrow>
               store_loop msg rest
                 (st\<lparr>Receipts := map_set rid (stored_receipt msg r) (Receipts st),
                     ReceiptCount := ReceiptCount st + 1\<rparr>,
                  stored_count + 1)))"

definition StoreReceipts ::
  "(string \<Rightarrow> Decoded option) \<Rightarrow> State \<Rightarrow> Msg \<Rightarrow> State \<times> Sent list" where
  "StoreReceipts decode st msg =
     (if Frozen st then (st, send_reply msg ''Error'' (ErrorData ''Process is frozen''))
      else if \<not> is_owner st msg
        then (st, send_reply msg ''Error'' (ErrorData ''Unauthorized: owner only''))
      else (case parse_data decode msg of
              None \<Rightarrow>
                (st, send_reply msg ''Error'' (ErrorData ''Invalid payload: missing receipts array''))
            | Some d \<Rightarrow>
                (case receipts d of
                   None \<Rightarrow>
                     (st, send_reply msg ''Error''
                            (ErrorData ''Invalid payload: missing receipts array''))
                 | Some rs \<Rightarrow>
                     (case store_loop msg rs (st, 0) of
                        (st', stored_count) \<Rightarrow>
                          (st', send_reply msg ''ReceiptsStored''
                                  (ReceiptsStoredData stored_count (ReceiptCount st')))))))"

definition Freeze :: "State \<Rightarrow> Msg \<Rightarrow> State \<times> Sent list" where
  "Freeze st msg =
     (if \<not> is_owner st msg
      then (st, send_reply msg ''Error'' (ErrorData ''Unauthorized: owner only''))
      else (st\<lparr>Frozen := True\<rparr>, send_reply msg ''Frozen'' (FrozenData True)))"

definition Unfreeze :: "State \<Rightarrow> Msg \<Rightarrow> State \<times> Sent list" where
  "Unfreeze st msg =
     (if \<not> is_owner st msg
      then (st, send_reply msg ''Error'' (ErrorData ''Unauthorized: owner only''))
      else (st\<lparr>Frozen := False\<rparr>, send_reply msg ''Unfrozen'' (FrozenData False)))"

text \<open>The id a query names: the tag, else the decoded data's \<open>receipt_id\<close>, else the data text.\<close>

definition query_id :: "(string \<Rightarrow> Decoded option) \<Rightarrow> Msg \<Rightarrow> string option" where
  "query_id decode msg =
     (let rid1 = Tag_Receipt_Id msg;
          rid2 = (case rid1 of
                    Some t \<Rightarrow> rid1
                  | None \<Rightarrow> (case parse_data decode msg of
                               None \<Rightarrow> None
                             | Some d \<Rightarrow> d_receipt_id d))
      in (case rid2 of Some t \<Rightarrow> rid2 | None \<Rightarrow> Data msg))"

definition GetReceipt ::
  "(string \<Rightarrow> Decoded option) \<Rightarrow> State \<Rightarrow> Msg \<Rightarrow> State \<times> Sent list" where
  "GetReceipt decode st msg =
     (case query_id decode msg of
        None \<Rightarrow> (st, send_reply msg ''Error'' (ErrorData ''Missing Receipt-Id''))
      | Some rid \<Rightarrow>
          (if rid = [] then (st, send_reply msg ''Error'' (ErrorData ''Missing Receipt-Id''))
           else (case map_of (Receipts st) rid of
                   Some r \<Rightarrow> (st, send_reply msg ''Receipt'' (ReceiptData r))
                 | None \<Rightarrow>
                     (st, send_reply msg ''NotFound'' (NotFoundData ''Receipt not found'' rid)))))"

text \<open>
  \<open>pairs\<close> visits the table in an order Lua does not fix; the model lists the first
  \<open>limit\<close> entries in insertion order.
\<close>

definition ListReceipts :: "State \<Rightarrow> Msg \<Rightarrow> State \<times> Sent list" where
  "ListReceipts st msg =
     (let limit = (case Tag_Limit msg of None \<Rightarrow> 100 | Some l \<Rightarrow> l);
          listed = map (\<lambda>(rid, r). (rid, in_timestamp_ms r, stored_at r))
                     (take (nat limit) (Receipts st))
      in (st, send_reply msg ''ReceiptList'' (ReceiptListData listed (ReceiptCount st))))"

definition VerifyReceipt ::
  "(string \<Rightarrow> Decoded option) \<Rightarrow> string \<Rightarrow> State \<Rightarrow> Msg \<Rightarrow> State \<times> Sent list" where
  "VerifyReceipt decode ao_id st msg =
     (let rid = query_id decode msg;
          found = (case rid of None \<Rightarrow> None | Some k \<Rightarrow> map_of (Receipts st) k)
      in (st, send_reply msg ''VerificationResult''
                (VerificationResultData rid (found \<noteq> None)
                   (case found of None \<Rightarrow> None | Some r \<Rightarrow> stored_at r)
                   (case found of None \<Rightarrow> None | Some r \<Rightarrow> message_id r)
                   ao_id)))"

definition GetStats :: "string \<Rightarrow> State \<Rightarrow> Msg \<Rightarrow> State \<times> Sent list" where
  "GetStats ao_id st msg =
     (st, send_reply msg ''Stats''
            (StatsData (ReceiptCount st) (Owner st) (Frozen st) (Version st) ao_id))"

text \<open>The handler list: the first handler whose \<open>Action\<close> tag matches runs.\<close>

definition handle ::
  "(string \<Rightarrow> Decoded option) \<Rightarrow> string \<Rightarrow> State \<Rightarrow> Msg \<Rightarrow> State \<times> Sent list" where
  "handle decode ao_id st msg =
     (if Action msg = ''StoreReceipts'' then StoreReceipts decode st msg
      else if Action msg = ''Freeze'' then Freeze st msg
      else if Action msg = ''Unfreeze'' then Unfreeze st msg
      else if Action msg = ''GetReceipt'' then GetReceipt decode st msg
      else if Action msg = ''ListReceipts'' then ListReceipts st msg
      else if Action msg = ''VerifyReceipt'' then VerifyReceipt decode ao_id st msg
      else if Action msg = ''GetStats'' then GetStats ao_id st msg
      else (st, []))"

definition process ::
  "(string \<Rightarrow> Decoded option) \<Rightarrow> string \<Rightarrow> Msg list \<Rightarrow> State \<Rightarrow> State" where
  "process decode ao_id msgs st = foldl (\<lambda>s m. fst (handle decode ao_id s m)) st msgs"

section \<open>Invariants of the receipt store\<close>

text \<open>
  What holds of every entry of the two maps: it is filed under its own id, its signature
  verifies, a pending entry has status \<open>pending\<close> and no transaction, a settled entry has
  status \<open>settled\<close>. \<open>no_failed\<close>: no entry of either map has status \<open>failed\<close>.
  \<open>all_ids\<close> are the ids held in either map, \<open>both_ids\<close> the ids held in both.
\<close>

definition pending_ok :: "Crypto \<Rightarrow> string \<times> PendingReceipt \<Rightarrow> bool" where
  "pending_ok K e =
     (receipt_id (snd e) = fst e \<and> verifySignature K (hash (snd e)) (signature (snd e))
      \<and> status (snd e) = Pending \<and> arweave_tx (snd e) = None)"

definition settled_ok :: "Crypto \<Rightarrow> string \<times> WitnessReceipt \<Rightarrow> bool" where
  "settled_ok K e =
     (receipt_id (snd e) = fst e \<and> verifySignature K (hash (snd e)) (signature (snd e))
      \<and> status (snd e) = Settled)"

definition store_ok :: "Crypto \<Rightarrow> Server \<Rightarrow> bool" where
  "store_ok K st =
     (distinct (map fst (pendingReceipts st)) \<and> list_all (pending_ok K) (pendingReceipts st)
      \<and> distinct (map fst (settledReceipts st)) \<and> list_all (settled_ok K) (settledReceipts st))"

definition disjoint_stores :: "Server \<Rightarrow> bool" where
  "disjoint_stores st = (map_keys (pendingReceipts st) \<inter> map_keys (settledReceipts st) = {})"

definition no_failed :: "Server \<Rightarrow> bool" where
  "no_failed st =
     (Failed \<notin> status ` snd ` set (pendingReceipts st)
      \<and> Failed \<notin> status ` snd ` set (settledReceipts st))"

definition both_ids :: "Server \<Rightarrow> string set" where
  "both_ids st = map_keys (pendingReceipts st) \<inter> map_keys (settledReceipts st)"

definition all_ids :: "Server \<Rightarrow> string set" where
  "all_ids st = map_keys (pendingReceipts st) \<union> map_keys (settledReceipts st)"

section \<open>Scenarios for the examples\<close>

text \<open>
  A stand-in for the crypto parameters, used where a statement is run on concrete
  values: the digest is the timestamp followed by the three texts, a signature is the
  hash reversed.
\<close>

definition toy_crypto :: Crypto where
  "toy_crypto =
     \<lparr>digest = (\<lambda>i. show_int (h_timestamp_ms i) @ h_context i @ h_logic i @ h_action i),
      sign = (\<lambda>nonce h. rev h),
      verify = (\<lambda>h s. s = rev h),
      public_key_pem = ''PEM''\<rparr>"

definition raw_cla :: RawRequest where
  "raw_cla = \<lparr>raw_context = Some ''c'', raw_logic = Some ''l'', raw_action = Some ''a'',
               raw_agent_id = None\<rparr>"

text \<open>Receipts, requests and configurations of the HTTP server.\<close>

definition receipt_1000 :: WitnessReceipt where
  "receipt_1000 =
     \<lparr>receipt_id = ''vts_1000cla'', signature = ''alc0001'', timestamp_ms = 1000,
      hash = ''1000cla'', arweave_tx = None, status = Pending\<rparr>"

definition pending_1000 :: PendingReceipt where
  "pending_1000 =
     WitnessReceipt.extend receipt_1000 (PendingReceipt.fields (as_WitnessRequest raw_cla))"

definition tampered :: Server where
  "tampered =
     \<lparr>pendingReceipts = [(''vts_1000cla'', pending_1000)],
      settledReceipts =
        [(''vts_bad'', \<lparr>receipt_id = ''vts_bad'', signature = ''forged'', timestamp_ms = 500,
                        hash = ''500cla'', arweave_tx = Some ''m0'', status = Settled\<rparr>)]\<rparr>"

definition raw_empty_context :: RawRequest where
  "raw_empty_context =
     \<lparr>raw_context = Some [], raw_logic = Some ''l'', raw_action = Some ''a'', raw_agent_id = None\<rparr>"

definition readme_request :: WitnessRequest where
  "readme_request =
     \<lparr>context_text = ''Test decision context'', logic = ''Test reasoning'',
      action = ''Test action'', agent_id = None\<rparr>"

text \<open>
  Clocks for a call of the settler: \<open>steady t\<close> gives \<open>t\<close> at every reading (the call
  stays within one millisecond), \<open>ticking t\<close> advances one millisecond per reading.
\<close>

definition steady :: "int \<Rightarrow> nat \<Rightarrow> int" where
  "steady t n = t"

definition ticking :: "int \<Rightarrow> nat \<Rightarrow> int" where
  "ticking t n = t + int n"

definition cfg_ok :: Config where
  "cfg_ok = \<lparr>VERITAS_PROCESS_ID = Some ''proc'', loadWallet = Some ''jwk''\<rparr>"

definition long_pending :: PendingReceipt where
  "long_pending =
     pending_1000\<lparr>full_payload :=
       \<lparr>context_text = ''Aa'', logic = replicate 201 (CHR ''x''), action = ''a'',
        agent_id = Some []\<rparr>\<rparr>"

definition receipt_3000 :: WitnessReceipt where
  "receipt_3000 =
     \<lparr>receipt_id = ''vts_3000cla'', signature = ''alc0003'', timestamp_ms = 3000,
      hash = ''3000cla'', arweave_tx = None, status = Pending\<rparr>"

definition pending_3000 :: PendingReceipt where
  "pending_3000 =
     WitnessReceipt.extend receipt_3000 (PendingReceipt.fields (as_WitnessRequest raw_cla))"

definition witness_post :: HttpRequest where
  "witness_post = \<lparr>http_method = ''POST'', pathname = ''/witness'', body = JsonObject raw_cla\<rparr>"

definition cfg_no_process :: Config where
  "cfg_no_process = \<lparr>VERITAS_PROCESS_ID = None, loadWallet = Some ''jwk''\<rparr>"

definition cfg_no_wallet :: Config where
  "cfg_no_wallet = \<lparr>VERITAS_PROCESS_ID = Some ''proc'', loadWallet = None\<rparr>"

definition settled_once :: Server where
  "settled_once =
     \<lparr>pendingReceipts = [],
      settledReceipts =
        [(''vts_1000cla'', promote pending_1000 (Some ''sim_1000_vts_1000cla''))]\<rparr>"

definition one_pending :: Server where
  "one_pending = \<lparr>pendingReceipts = [(''vts_1000cla'', pending_1000)], settledReceipts = []\<rparr>"

definition two_pending :: Server where
  "two_pending =
     \<lparr>pendingReceipts = [(''vts_1000cla'', pending_1000), (''vts_3000cla'', pending_3000)],
      settledReceipts = []\<rparr>"

definition idle_two :: Sched where
  "idle_two = \<lparr>server = two_pending, in_flight = []\<rparr>"

text \<open>Messages and a decoder for the ledger process: the text \<open>batch\<close> decodes to three
  receipts, the third repeating the id of the first.\<close>

definition rc_in :: "string \<Rightarrow> string \<Rightarrow> ReceiptIn" where
  "rc_in rid h =
     \<lparr>in_receipt_id = Some rid, in_hash = Some h, in_signature = Some (rev h),
      in_timestamp_ms = Some 1000, in_context_hash = Some ''63'', in_logic_summary = Some ''l'',
      in_action = Some ''a'', in_agent_id = None\<rparr>"

definition toy_decode :: "string \<Rightarrow> Decoded option" where
  "toy_decode d =
     (if d = ''batch'' then
        Some \<lparr>receipts = Some [rc_in ''vts_1'' ''h1'', rc_in ''vts_2'' ''h2'', rc_in ''vts_1'' ''other''],
              d_receipt_id = None\<rparr>
      else None)"

definition store_msg :: "string \<Rightarrow> int \<Rightarrow> string \<Rightarrow> Msg" where
  "store_msg sender t mid =
     \<lparr>From = Some sender, Action = ''StoreReceipts'', Data = Some ''batch'',
      Tag_Receipt_Id = None, Tag_Limit = None, Timestamp = Some t, Msg_Id = Some mid\<rparr>"

definition tag_msg :: "string \<Rightarrow> string \<Rightarrow> Msg" where
  "tag_msg sender act =
     \<lparr>From = Some sender, Action = act, Data = None,
      Tag_Receipt_Id = None, Tag_Limit = None, Timestamp = Some 5, Msg_Id = Some ''m''\<rparr>"

definition stored_twice :: State where
  "stored_twice =
     \<lparr>Receipts = [(''vts_1'', stored_receipt (store_msg ''owner'' 10 ''m1'') (rc_in ''vts_1'' ''h1'')),
                  (''vts_2'', stored_receipt (store_msg ''owner'' 10 ''m1'') (rc_in ''vts_2'' ''h2''))],
      ReceiptCount = 2, Owner = ''owner'', Frozen = False, Version = ''0.1.0''\<rparr>"

definition toy_batch :: "ReceiptIn list" where
  "toy_batch = [rc_in ''vts_1'' ''h1'', rc_in ''vts_2'' ''h2'', rc_in ''vts_1'' ''other'']"

section \<open>Evaluation lemmas\<close>

lemma show_int_1000: "show_int 1000 = ''1000''"
  by (simp add: show_int_def to_base.simps digit_char_def)

lemma toy_crypto_verifies: "verify toy_crypto h (sign toy_crypto nonce h)"
  by (simp add: toy_crypto_def)

section \<open>Witnessing\<close>

text \<open>
  Claim C4. For a request whose context, logic and action are all non-empty, the
  \<open>/witness\<close> route answers 200 with the receipt \<open>witnessDecision\<close> returns; the
  receipt's signature verifies against its hash under the process key, and its id is
  \<open>vts_\<close> followed by the first 16 characters of its hash. The only assumption is on
  the crypto library: a signature made with the private key verifies with the public key.
\<close>

theorem witness_signature_verifies_and_id_is_hash_prefix:
  assumes sig: "\<And>nonce h. verify K h (sign K nonce h)"
    and ok: "\<not> falsy (raw_context raw)" "\<not> falsy (raw_logic raw)" "\<not> falsy (raw_action raw)"
  shows "\<exists>r st'. handleRequest K now nonce st
             \<lparr>http_method = ''POST'', pathname = ''/witness'', body = JsonObject raw\<rparr>
           = (sendJson 200 (WitnessBody r), st')
         \<and> r = fst (witnessDecision K now nonce (as_WitnessRequest raw) st)
         \<and> verifySignature K (hash r) (signature r)
         \<and> receipt_id r = ''vts_'' @ take 16 (hash r)
         \<and> receipt_id r = generateReceiptId (hash r)"
  using sig ok
  by (simp add: handleRequest_def witnessDecision_def Let_def verifySignature_def signHash_def
      generateReceiptId_def)

theorem witness_signature_verifies_example:
  "(\<exists>r st'. handleRequest toy_crypto 1000 7 initial_server
             \<lparr>http_method = ''POST'', pathname = ''/witness'', body = JsonObject raw_cla\<rparr>
           = (sendJson 200 (WitnessBody r), st')
         \<and> r = fst (witnessDecision toy_crypto 1000 7 (as_WitnessRequest raw_cla) initial_server)
         \<and> verifySignature toy_crypto (hash r) (signature r)
         \<and> receipt_id r = ''vts_'' @ take 16 (hash r)
         \<and> receipt_id r = generateReceiptId (hash r))
   \<and> receipt_id (fst (witnessDecision toy_crypto 1000 7 (as_WitnessRequest raw_cla) initial_server))
       = ''vts_1000cla''"
proof -
  have ok: "\<not> falsy (raw_context raw_cla)" "\<not> falsy (raw_logic raw_cla)"
    "\<not> falsy (raw_action raw_cla)"
    by (simp_all add: raw_cla_def falsy_def)
  have rid: "receipt_id (fst (witnessDecision toy_crypto 1000 7 (as_WitnessRequest raw_cla)
                  initial_server)) = ''vts_1000cla''"
    by (simp add: witnessDecision_def Let_def generateReceiptId_def hashWitnessRequest_def
        toy_crypto_def as_WitnessRequest_def raw_cla_def str_of_def show_int_1000)
  from witness_signature_verifies_and_id_is_hash_prefix
         [of toy_crypto raw_cla 1000 7 initial_server, OF toy_crypto_verifies ok] rid
  show ?thesis by blast
qed

section \<open>The ledger process: stored receipts and their count\<close>

lemma map_of_map_set: "map_of (map_set k v m) = (map_of m)(k \<mapsto> v)"
  by (simp add: map_set_def update_conv')

lemma map_of_map_delete: "map_of (map_delete k m) = (map_of m)(k := None)"
  by (simp add: map_delete_def delete_conv')

lemma keys_map_set: "fst ` set (map_set k v m) = insert k (fst ` set m)"
  by (simp add: map_set_def dom_update)

lemma store_loop_keeps:
  "map_of (Receipts st) k = Some r \<Longrightarrow>
   map_of (Receipts (fst (store_loop msg rs (st, n)))) k = Some r"
proof (induction rs arbitrary: st n)
  case Nil
  then show ?case by simp
next
  case (Cons a rs)
  show ?case
  proof (cases "in_receipt_id a")
    case None
    with Cons show ?thesis by simp
  next
    case (Some rid)
    show ?thesis
    proof (cases "map_of (Receipts st) rid")
      case None
      with Cons.prems have "rid \<noteq> k" by auto
      with Cons.prems
      have "map_of (Receipts (st\<lparr>Receipts := map_set rid (stored_receipt msg a) (Receipts st),
                     ReceiptCount := ReceiptCount st + 1\<rparr>)) k = Some r"
        by (simp add: map_of_map_set)
      from Cons.IH [OF this] Some None show ?thesis by simp
    next
      case (Some existing)
      with Cons \<open>in_receipt_id a = Some rid\<close> show ?thesis by simp
    qed
  qed
qed

lemma store_loop_frame:
  "Owner (fst (store_loop msg rs (st, n))) = Owner st \<and>
   Frozen (fst (store_loop msg rs (st, n))) = Frozen st \<and>
   Version (fst (store_loop msg rs (st, n))) = Version st"
  by (induction rs arbitrary: st n) (auto split: option.splits)

lemma store_loop_count:
  "ReceiptCount st = card (stored_ids st) \<Longrightarrow>
   ReceiptCount (fst (store_loop msg rs (st, n))) = card (stored_ids (fst (store_loop msg rs (st, n))))"
proof (induction rs arbitrary: st n)
  case Nil
  then show ?case by simp
next
  case (Cons a rs)
  show ?case
  proof (cases "in_receipt_id a")
    case None
    with Cons show ?thesis by simp
  next
    case (Some rid)
    show ?thesis
    proof (cases "map_of (Receipts st) rid")
      case None
      then have "rid \<notin> fst ` set (Receipts st)"
        by (simp add: map_of_eq_None_iff)
      with Cons.prems
      have "ReceiptCount (st\<lparr>Receipts := map_set rid (stored_receipt msg a) (Receipts st),
                     ReceiptCount := ReceiptCount st + 1\<rparr>)
           = card (stored_ids (st\<lparr>Receipts := map_set rid (stored_receipt msg a) (Receipts st),
                     ReceiptCount := ReceiptCount st + 1\<rparr>))"
        by (simp add: stored_ids_def keys_map_set)
      from Cons.IH [OF this] Some None show ?thesis by simp
    next
      case (Some existing)
      with Cons \<open>in_receipt_id a = Some rid\<close> show ?thesis by simp
    qed
  qed
qed

lemma store_loop_present:
  "r \<in> set rs \<Longrightarrow> in_receipt_id r = Some k \<Longrightarrow>
   map_of (Receipts (fst (store_loop msg rs (st, n)))) k \<noteq> None"
proof (induction rs arbitrary: st n)
  case Nil
  then show ?case by simp
next
  case (Cons a rs)
  show ?case
  proof (cases "r = a")
    case True
    show ?thesis
    proof (cases "map_of (Receipts st) k")
      case None
      have "map_of (Receipts (st\<lparr>Receipts := map_set k (stored_receipt msg a) (Receipts st),
                     ReceiptCount := ReceiptCount st + 1\<rparr>)) k = Some (stored_receipt msg a)"
        by (simp add: map_of_map_set)
      from store_loop_keeps [OF this] True Cons.prems None show ?thesis by simp
    next
      case (Some existing)
      from store_loop_keeps [OF this] True Cons.prems Some show ?thesis by simp
    qed
  next
    case False
    with Cons.prems have "r \<in> set rs" by simp
    from Cons.IH [OF this Cons.prems(2)] show ?thesis
      by (simp split: option.splits)
  qed
qed

lemma store_loop_noop:
  "(\<And>r k. r \<in> set rs \<Longrightarrow> in_receipt_id r = Some k \<Longrightarrow> map_of (Receipts st) k \<noteq> None) \<Longrightarrow>
   store_loop msg rs (st, n) = (st, n)"
proof (induction rs)
  case Nil
  then show ?case by simp
next
  case (Cons a rs)
  have "store_loop msg rs (st, n) = (st, n)"
  proof (rule Cons.IH)
    fix r k
    assume "r \<in> set rs" "in_receipt_id r = Some k"
    then show "map_of (Receipts st) k \<noteq> None"
      using Cons.prems [of r k] by simp
  qed
  moreover have "in_receipt_id a = Some k \<Longrightarrow> map_of (Receipts st) k \<noteq> None" for k
    using Cons.prems [of a k] by simp
  ultimately show ?case
    by (auto split: option.splits)
qed


lemma stored_once_eval:
  "handle toy_decode ''ao'' (initial_state ''owner'') (store_msg ''owner'' 10 ''m1'')
   = (stored_twice,
      [\<lparr>Target = ''owner'', Sent_Action = ''ReceiptsStored'', Sent_Data = ReceiptsStoredData 2 2\<rparr>])"
  by (simp add: handle_def StoreReceipts_def store_msg_def initial_state_def is_owner_def
      parse_data_def toy_decode_def rc_in_def map_set_def send_reply_def stored_twice_def)

lemma handle_count:
  assumes "ReceiptCount st = card (stored_ids st)"
  shows "ReceiptCount (fst (handle decode ao_id st msg))
         = card (stored_ids (fst (handle decode ao_id st msg)))"
proof -
  have store: "ReceiptCount (fst (StoreReceipts decode st msg))
         = card (stored_ids (fst (StoreReceipts decode st msg)))"
    using assms store_loop_count [OF assms, of msg _ 0]
    by (auto simp: StoreReceipts_def split: option.splits prod.splits)
       (metis fst_conv)
  have others: "stored_ids (st\<lparr>Frozen := b\<rparr>) = stored_ids st" for b
    by (simp add: stored_ids_def)
  show ?thesis
    using assms store
    by (simp add: handle_def Freeze_def Unfreeze_def GetReceipt_def ListReceipts_def
        VerifyReceipt_def GetStats_def Let_def others split: option.splits)
qed

lemma process_count:
  "ReceiptCount st = card (stored_ids st) \<Longrightarrow>
   ReceiptCount (process decode ao_id msgs st) = card (stored_ids (process decode ao_id msgs st))"
proof (induction msgs arbitrary: st)
  case Nil
  then show ?case by (simp add: process_def)
next
  case (Cons m msgs)
  from Cons.IH [OF handle_count [OF Cons.prems, of decode ao_id m]]
  show ?case by (simp add: process_def)
qed


lemma store_loop_distinct:
  "distinct (map fst (Receipts st)) \<Longrightarrow>
   distinct (map fst (Receipts (fst (store_loop msg rs (st, n)))))"
proof (induction rs arbitrary: st n)
  case Nil
  then show ?case by simp
next
  case (Cons a rs)
  have "distinct (map fst (Receipts (st\<lparr>Receipts := map_set rid v (Receipts st),
                     ReceiptCount := ReceiptCount st + 1\<rparr>)))" for rid v
    using Cons.prems by (simp add: map_set_def distinct_update)
  from Cons.IH [OF this] Cons.IH [OF Cons.prems] show ?case
    by (simp split: option.splits)
qed

lemma StoreReceipts_accepted:
  assumes "\<not> Frozen st" "is_owner st msg" "parse_data decode msg = Some d" "receipts d = Some rs"
  shows "StoreReceipts decode st msg =
           (fst (store_loop msg rs (st, 0)),
            [\<lparr>Target = Owner st, Sent_Action = ''ReceiptsStored'',
              Sent_Data = ReceiptsStoredData (snd (store_loop msg rs (st, 0)))
                            (ReceiptCount (fst (store_loop msg rs (st, 0))))\<rparr>])"
  using assms
  by (auto simp: StoreReceipts_def send_reply_def is_owner_def split: option.splits prod.splits)

lemma handle_keeps:
  assumes "map_of (Receipts st) rid = Some r"
  shows "map_of (Receipts (fst (handle decode ao_id st msg))) rid = Some r"
proof -
  have "map_of (Receipts (fst (StoreReceipts decode st msg))) rid = Some r"
    using assms store_loop_keeps [OF assms, of msg _ 0]
    by (auto simp: StoreReceipts_def split: option.splits prod.splits) (metis fst_conv)
  with assms show ?thesis
    by (simp add: handle_def Freeze_def Unfreeze_def GetReceipt_def ListReceipts_def
        VerifyReceipt_def GetStats_def Let_def split: option.splits)
qed

lemma handle_distinct:
  assumes "distinct (map fst (Receipts st))"
  shows "distinct (map fst (Receipts (fst (handle decode ao_id st msg))))"
proof -
  have "distinct (map fst (Receipts (fst (StoreReceipts decode st msg))))"
    using assms store_loop_distinct [OF assms, of msg _ 0]
    by (auto simp: StoreReceipts_def split: option.splits prod.splits) (metis fst_conv)
  with assms show ?thesis
    by (simp add: handle_def Freeze_def Unfreeze_def GetReceipt_def ListReceipts_def
        VerifyReceipt_def GetStats_def Let_def split: option.splits)
qed

lemma StoreReceipts_again:
  assumes acc1: "\<not> Frozen st" "is_owner st msg1" "parse_data decode msg1 = Some d1"
      "receipts d1 = Some rs"
    and acc2: "is_owner st msg2" "parse_data decode msg2 = Some d2" "receipts d2 = Some rs"
  shows "StoreReceipts decode (fst (StoreReceipts decode st msg1)) msg2
         = (fst (StoreReceipts decode st msg1),
            [\<lparr>Target = Owner st, Sent_Action = ''ReceiptsStored'',
              Sent_Data = ReceiptsStoredData 0 (ReceiptCount (fst (StoreReceipts decode st msg1)))\<rparr>])"
proof -
  let ?st1 = "fst (store_loop msg1 rs (st, 0))"
  have st1: "fst (StoreReceipts decode st msg1) = ?st1"
    by (simp add: StoreReceipts_accepted [OF acc1])
  have frame: "Owner ?st1 = Owner st" "Frozen ?st1 = Frozen st"
    using store_loop_frame [of msg1 rs st 0] by simp_all
  have noop: "store_loop msg2 rs (?st1, 0) = (?st1, 0)"
    by (rule store_loop_noop) (rule store_loop_present)
  have "\<not> Frozen ?st1" "is_owner ?st1 msg2"
    using acc1(1) acc2(1) frame by (simp_all add: is_owner_def split: option.splits)
  from StoreReceipts_accepted [OF this acc2(2,3)] noop frame st1
  show ?thesis by simp
qed

lemma toy_store_accepted:
  "\<not> Frozen (initial_state ''owner'')"
  "is_owner (initial_state ''owner'') (store_msg ''owner'' t mid)"
  "parse_data toy_decode (store_msg ''owner'' t mid)
     = Some \<lparr>receipts = Some toy_batch, d_receipt_id = None\<rparr>"
  "receipts \<lparr>receipts = Some toy_batch, d_receipt_id = None\<rparr> = Some toy_batch"
  by (simp_all add: initial_state_def is_owner_def store_msg_def parse_data_def toy_decode_def
      toy_batch_def)

lemma toy_store_once:
  "StoreReceipts toy_decode (initial_state ''owner'') (store_msg ''owner'' 10 ''m1'')
   = (stored_twice,
      [\<lparr>Target = ''owner'', Sent_Action = ''ReceiptsStored'', Sent_Data = ReceiptsStoredData 2 2\<rparr>])"
  using stored_once_eval by (simp add: handle_def store_msg_def)

lemma toy_freeze_eval:
  "fst (handle toy_decode ''ao'' stored_twice (tag_msg ''owner'' ''Freeze''))
   = stored_twice\<lparr>Frozen := True\<rparr>"
  by (simp add: handle_def Freeze_def tag_msg_def is_owner_def stored_twice_def)

lemma toy_frozen_store_eval:
  "fst (handle toy_decode ''ao'' (stored_twice\<lparr>Frozen := True\<rparr>) (store_msg ''owner'' 20 ''m2''))
   = stored_twice\<lparr>Frozen := True\<rparr>"
  by (simp add: handle_def StoreReceipts_def store_msg_def)

lemma toy_process_eval:
  "process toy_decode ''ao''
     [store_msg ''owner'' 10 ''m1'', tag_msg ''owner'' ''Freeze'', store_msg ''owner'' 20 ''m2'']
     (initial_state ''owner'')
   = stored_twice\<lparr>Frozen := True\<rparr>"
  by (simp add: process_def stored_once_eval toy_freeze_eval toy_frozen_store_eval)

lemma process_keeps:
  "map_of (Receipts st) rid = Some r \<Longrightarrow>
   map_of (Receipts (process decode ao_id msgs st)) rid = Some r"
proof (induction msgs arbitrary: st)
  case Nil
  then show ?case by (simp add: process_def)
next
  case (Cons m msgs)
  from Cons.IH [OF handle_keeps [OF Cons.prems, of decode ao_id m]]
  show ?case by (simp add: process_def)
qed

lemma process_distinct:
  "distinct (map fst (Receipts st)) \<Longrightarrow>
   distinct (map fst (Receipts (process decode ao_id msgs st)))"
proof (induction msgs arbitrary: st)
  case Nil
  then show ?case by (simp add: process_def)
next
  case (Cons m msgs)
  from Cons.IH [OF handle_distinct [OF Cons.prems, of decode ao_id m]]
  show ?case by (simp add: process_def)
qed

text \<open>
  Claim C9. In the ledger process a stored receipt is never changed by any later message
  or sequence of messages, and the ids of the table stay distinct (they are distinct in
  every state reached from the initial one), so no id gets a second record. A batch from the
  owner to a process that is not frozen is answered with \<open>ReceiptsStored\<close> whatever
  ids it repeats, and sending the same receipts again changes nothing: the state is the
  state after the first batch and the reply counts no new receipt.
\<close>

theorem store_receipts_skips_duplicates:
  "(map_of (Receipts st) rid = Some r \<longrightarrow>
      map_of (Receipts (fst (handle decode ao_id st msg))) rid = Some r)
   \<and> (distinct (map fst (Receipts st)) \<longrightarrow>
        distinct (map fst (Receipts (fst (handle decode ao_id st msg)))))
   \<and> (\<not> Frozen st \<and> is_owner st msg \<and> parse_data decode msg = Some d \<and> receipts d = Some rs \<longrightarrow>
        snd (StoreReceipts decode st msg) =
          [\<lparr>Target = Owner st, Sent_Action = ''ReceiptsStored'',
            Sent_Data = ReceiptsStoredData (snd (store_loop msg rs (st, 0)))
                          (ReceiptCount (fst (StoreReceipts decode st msg)))\<rparr>])
   \<and> (\<not> Frozen st \<and> is_owner st msg \<and> parse_data decode msg = Some d \<and> receipts d = Some rs
        \<and> is_owner st msg2 \<and> parse_data decode msg2 = Some d2 \<and> receipts d2 = Some rs \<longrightarrow>
        StoreReceipts decode (fst (StoreReceipts decode st msg)) msg2
         = (fst (StoreReceipts decode st msg),
            [\<lparr>Target = Owner st, Sent_Action = ''ReceiptsStored'',
              Sent_Data = ReceiptsStoredData 0 (ReceiptCount (fst (StoreReceipts decode st msg)))\<rparr>]))
   \<and> (map_of (Receipts st) rid = Some r \<longrightarrow>
        map_of (Receipts (process decode ao_id msgs st)) rid = Some r)
   \<and> distinct (map fst (Receipts (process decode ao_id msgs (initial_state owner))))"
proof (intro conjI impI)
  assume "map_of (Receipts st) rid = Some r"
  then show "map_of (Receipts (fst (handle decode ao_id st msg))) rid = Some r"
    by (rule handle_keeps)
next
  assume "distinct (map fst (Receipts st))"
  then show "distinct (map fst (Receipts (fst (handle decode ao_id st msg))))"
    by (rule handle_distinct)
next
  assume "\<not> Frozen st \<and> is_owner st msg \<and> parse_data decode msg = Some d \<and> receipts d = Some rs"
  then have acc: "\<not> Frozen st" "is_owner st msg" "parse_data decode msg = Some d"
    "receipts d = Some rs" by simp_all
  show "snd (StoreReceipts decode st msg) =
          [\<lparr>Target = Owner st, Sent_Action = ''ReceiptsStored'',
            Sent_Data = ReceiptsStoredData (snd (store_loop msg rs (st, 0)))
                          (ReceiptCount (fst (StoreReceipts decode st msg)))\<rparr>]"
    by (simp add: StoreReceipts_accepted [OF acc])
next
  assume "\<not> Frozen st \<and> is_owner st msg \<and> parse_data decode msg = Some d \<and> receipts d = Some rs
        \<and> is_owner st msg2 \<and> parse_data decode msg2 = Some d2 \<and> receipts d2 = Some rs"
  then have acc: "\<not> Frozen st" "is_owner st msg" "parse_data decode msg = Some d"
    "receipts d = Some rs" "is_owner st msg2" "parse_data decode msg2 = Some d2"
    "receipts d2 = Some rs" by simp_all
  show "StoreReceipts decode (fst (StoreReceipts decode st msg)) msg2
         = (fst (StoreReceipts decode st msg),
            [\<lparr>Target = Owner st, Sent_Action = ''ReceiptsStored'',
              Sent_Data = ReceiptsStoredData 0 (ReceiptCount (fst (StoreReceipts decode st msg)))\<rparr>])"
    by (rule StoreReceipts_again [OF acc])
next
  assume "map_of (Receipts st) rid = Some r"
  then show "map_of (Receipts (process decode ao_id msgs st)) rid = Some r"
    by (rule process_keeps)
next
  show "distinct (map fst (Receipts (process decode ao_id msgs (initial_state owner))))"
    by (rule process_distinct) (simp add: initial_state_def)
qed


theorem store_receipts_skips_duplicates_example:
  "map_of (Receipts (fst (handle toy_decode ''ao'' stored_twice (store_msg ''owner'' 20 ''m2''))))
       ''vts_1''
     = Some (stored_receipt (store_msg ''owner'' 10 ''m1'') (rc_in ''vts_1'' ''h1''))
   \<and> distinct (map fst (Receipts (fst (handle toy_decode ''ao'' stored_twice
          (store_msg ''owner'' 20 ''m2'')))))
   \<and> StoreReceipts toy_decode stored_twice (store_msg ''owner'' 20 ''m2'')
       = (stored_twice,
          [\<lparr>Target = ''owner'', Sent_Action = ''ReceiptsStored'',
            Sent_Data = ReceiptsStoredData 0 2\<rparr>])
   \<and> snd (StoreReceipts toy_decode (initial_state ''owner'') (store_msg ''owner'' 10 ''m1''))
       = [\<lparr>Target = ''owner'', Sent_Action = ''ReceiptsStored'',
           Sent_Data = ReceiptsStoredData 2 2\<rparr>]"
proof -
  have present: "map_of (Receipts stored_twice) ''vts_1''
      = Some (stored_receipt (store_msg ''owner'' 10 ''m1'') (rc_in ''vts_1'' ''h1''))"
    by (simp add: stored_twice_def)
  have dist: "distinct (map fst (Receipts stored_twice))"
    by (simp add: stored_twice_def)
  have acc: "\<not> Frozen (initial_state ''owner'')
      \<and> is_owner (initial_state ''owner'') (store_msg ''owner'' 10 ''m1'')
      \<and> parse_data toy_decode (store_msg ''owner'' 10 ''m1'')
          = Some \<lparr>receipts = Some toy_batch, d_receipt_id = None\<rparr>
      \<and> receipts \<lparr>receipts = Some toy_batch, d_receipt_id = None\<rparr> = Some toy_batch
      \<and> is_owner (initial_state ''owner'') (store_msg ''owner'' 20 ''m2'')
      \<and> parse_data toy_decode (store_msg ''owner'' 20 ''m2'')
          = Some \<lparr>receipts = Some toy_batch, d_receipt_id = None\<rparr>
      \<and> receipts \<lparr>receipts = Some toy_batch, d_receipt_id = None\<rparr> = Some toy_batch"
    using toy_store_accepted by simp
  have own: "Owner (initial_state ''owner'') = ''owner''" "ReceiptCount stored_twice = 2"
    by (simp_all add: initial_state_def stored_twice_def)
  from store_receipts_skips_duplicates [of stored_twice "''vts_1''" _ toy_decode "''ao''" "store_msg ''owner'' 20 ''m2''"]
    present dist
  have a: "map_of (Receipts (fst (handle toy_decode ''ao'' stored_twice (store_msg ''owner'' 20 ''m2''))))
       ''vts_1''
     = Some (stored_receipt (store_msg ''owner'' 10 ''m1'') (rc_in ''vts_1'' ''h1''))"
    and b: "distinct (map fst (Receipts (fst (handle toy_decode ''ao'' stored_twice
          (store_msg ''owner'' 20 ''m2'')))))"
    by blast+
  from store_receipts_skips_duplicates [of "initial_state ''owner''" _ _ toy_decode _ "store_msg ''owner'' 10 ''m1''"
      "\<lparr>receipts = Some toy_batch, d_receipt_id = None\<rparr>" toy_batch
      "store_msg ''owner'' 20 ''m2''" "\<lparr>receipts = Some toy_batch, d_receipt_id = None\<rparr>"] acc
  have c: "StoreReceipts toy_decode
             (fst (StoreReceipts toy_decode (initial_state ''owner'') (store_msg ''owner'' 10 ''m1'')))
             (store_msg ''owner'' 20 ''m2'')
         = (fst (StoreReceipts toy_decode (initial_state ''owner'') (store_msg ''owner'' 10 ''m1'')),
            [\<lparr>Target = Owner (initial_state ''owner''), Sent_Action = ''ReceiptsStored'',
              Sent_Data = ReceiptsStoredData 0 (ReceiptCount
                 (fst (StoreReceipts toy_decode (initial_state ''owner'')
                        (store_msg ''owner'' 10 ''m1''))))\<rparr>])"
    by blast
  from a b c own show ?thesis
    by (simp add: toy_store_once)
qed

text \<open>
  Claim C10. \<open>ReceiptCount\<close> equals the number of receipt ids in \<open>Receipts\<close> after any
  sequence of messages from the initial state. Every handler preserves the equality;
  \<open>StoreReceipts\<close> on a frozen process or from a sender who is not the owner leaves the
  state as it is, \<open>Freeze\<close> and \<open>Unfreeze\<close> touch neither the table nor the count, and
  the query handlers return the state unchanged.
\<close>

theorem receipt_count_equals_stored_ids:
  "ReceiptCount (process decode ao_id msgs (initial_state owner))
     = card (stored_ids (process decode ao_id msgs (initial_state owner)))
   \<and> (ReceiptCount st = card (stored_ids st) \<longrightarrow>
        ReceiptCount (fst (handle decode ao_id st msg))
          = card (stored_ids (fst (handle decode ao_id st msg))))
   \<and> (Frozen st \<or> \<not> is_owner st msg \<longrightarrow> fst (StoreReceipts decode st msg) = st)
   \<and> Receipts (fst (Freeze st msg)) = Receipts st
   \<and> ReceiptCount (fst (Freeze st msg)) = ReceiptCount st
   \<and> Receipts (fst (Unfreeze st msg)) = Receipts st
   \<and> ReceiptCount (fst (Unfreeze st msg)) = ReceiptCount st
   \<and> fst (GetReceipt decode st msg) = st
   \<and> fst (ListReceipts st msg) = st
   \<and> fst (VerifyReceipt decode ao_id st msg) = st
   \<and> fst (GetStats ao_id st msg) = st"
proof -
  have init: "ReceiptCount (initial_state owner) = card (stored_ids (initial_state owner))"
    by (simp add: initial_state_def stored_ids_def)
  have run: "ReceiptCount (process decode ao_id msgs (initial_state owner))
     = card (stored_ids (process decode ao_id msgs (initial_state owner)))"
    by (rule process_count [OF init])
  have rej: "Frozen st \<or> \<not> is_owner st msg \<longrightarrow> fst (StoreReceipts decode st msg) = st"
    by (auto simp: StoreReceipts_def)
  have fr: "Receipts (fst (Freeze st msg)) = Receipts st"
    "ReceiptCount (fst (Freeze st msg)) = ReceiptCount st"
    "Receipts (fst (Unfreeze st msg)) = Receipts st"
    "ReceiptCount (fst (Unfreeze st msg)) = ReceiptCount st"
    by (simp_all add: Freeze_def Unfreeze_def)
  have ro: "fst (GetReceipt decode st msg) = st" "fst (ListReceipts st msg) = st"
    "fst (VerifyReceipt decode ao_id st msg) = st" "fst (GetStats ao_id st msg) = st"
    by (simp_all add: GetReceipt_def ListReceipts_def VerifyReceipt_def GetStats_def Let_def
        split: option.splits)
  from run handle_count rej fr ro show ?thesis by blast
qed

theorem receipt_count_equals_stored_ids_example:
  "ReceiptCount (process toy_decode ''ao''
      [store_msg ''owner'' 10 ''m1'', tag_msg ''owner'' ''Freeze'', store_msg ''owner'' 20 ''m2'']
      (initial_state ''owner'')) = 2
   \<and> card (stored_ids (process toy_decode ''ao''
      [store_msg ''owner'' 10 ''m1'', tag_msg ''owner'' ''Freeze'', store_msg ''owner'' 20 ''m2'']
      (initial_state ''owner''))) = 2
   \<and> ReceiptCount (fst (handle toy_decode ''ao'' (initial_state ''owner'')
         (store_msg ''owner'' 10 ''m1''))) = 2
   \<and> card (stored_ids (fst (handle toy_decode ''ao'' (initial_state ''owner'')
         (store_msg ''owner'' 10 ''m1'')))) = 2
   \<and> fst (StoreReceipts toy_decode (stored_twice\<lparr>Frozen := True\<rparr>) (store_msg ''owner'' 20 ''m2''))
       = stored_twice\<lparr>Frozen := True\<rparr>"
proof -
  have init: "ReceiptCount (initial_state ''owner'') = card (stored_ids (initial_state ''owner''))"
    by (simp add: initial_state_def stored_ids_def)
  have fz: "Frozen (stored_twice\<lparr>Frozen := True\<rparr>)
      \<or> \<not> is_owner (stored_twice\<lparr>Frozen := True\<rparr>) (store_msg ''owner'' 20 ''m2'')"
    by simp
  have n: "ReceiptCount (stored_twice\<lparr>Frozen := True\<rparr>) = 2" "ReceiptCount stored_twice = 2"
    by (simp_all add: stored_twice_def)
  from receipt_count_equals_stored_ids [of toy_decode "''ao''"
      "[store_msg ''owner'' 10 ''m1'', tag_msg ''owner'' ''Freeze'', store_msg ''owner'' 20 ''m2'']"
      "''owner''" "initial_state ''owner''" "store_msg ''owner'' 10 ''m1''"]
    init n
  have a: "card (stored_ids (process toy_decode ''ao''
      [store_msg ''owner'' 10 ''m1'', tag_msg ''owner'' ''Freeze'', store_msg ''owner'' 20 ''m2'']
      (initial_state ''owner''))) = 2"
    and b: "card (stored_ids (fst (handle toy_decode ''ao'' (initial_state ''owner'')
         (store_msg ''owner'' 10 ''m1'')))) = 2"
    by (simp_all add: toy_process_eval stored_once_eval)
  from receipt_count_equals_stored_ids [of toy_decode "''ao''" "[]" "''owner''" "stored_twice\<lparr>Frozen := True\<rparr>"
      "store_msg ''owner'' 20 ''m2''"] fz
  have c: "fst (StoreReceipts toy_decode (stored_twice\<lparr>Frozen := True\<rparr>) (store_msg ''owner'' 20 ''m2''))
       = stored_twice\<lparr>Frozen := True\<rparr>"
    by blast
  from a b c n show ?thesis
    by (simp add: toy_process_eval stored_once_eval)
qed


section \<open>The receipt store under witnessing and settlement\<close>

lemma keys_map_delete: "map_keys (map_delete k m) = map_keys m - {k}"
  by (simp add: map_keys_def map_delete_def delete_keys flip: set_map)

lemma keys_map_set': "map_keys (map_set k v m) = insert k (map_keys m)"
  by (simp add: map_keys_def keys_map_set)

lemma map_get_keys: "map_get m k \<noteq> None \<longleftrightarrow> k \<in> map_keys m"
  by (simp add: map_get_def map_keys_def map_of_eq_None_iff)

lemma list_all_map_set:
  "list_all P m \<Longrightarrow> P (k, v) \<Longrightarrow> list_all P (map_set k v m)"
  unfolding map_set_def by (induction m) auto

lemma list_all_map_delete: "list_all P m \<Longrightarrow> list_all P (map_delete k m)"
  unfolding map_delete_def by (induction m) auto

lemma list_all_lookup: "list_all P m \<Longrightarrow> map_get m k = Some v \<Longrightarrow> P (k, v)"
  unfolding map_get_def by (induction m) (auto split: if_splits)

lemma apply_results_all_ids: "all_ids (apply_results results st) = all_ids st"
proof (induction results arbitrary: st)
  case Nil
  show ?case by simp
next
  case (Cons a results)
  show ?case
  proof (cases "map_get (pendingReceipts st) (res_receipt_id a)")
    case None
    with Cons show ?thesis by simp
  next
    case (Some p)
    then have "res_receipt_id a \<in> map_keys (pendingReceipts st)"
      using map_get_keys [of "pendingReceipts st" "res_receipt_id a"] by simp
    then have "all_ids (st\<lparr>settledReceipts :=
                        map_set (res_receipt_id a) v (settledReceipts st),
                      pendingReceipts := map_delete (res_receipt_id a) (pendingReceipts st)\<rparr>)
               = all_ids st" for v
      by (auto simp: all_ids_def keys_map_delete keys_map_set')
    with Cons Some show ?thesis by simp
  qed
qed

lemma apply_results_disjoint:
  "disjoint_stores st \<Longrightarrow> disjoint_stores (apply_results results st)"
proof (induction results arbitrary: st)
  case Nil
  then show ?case by simp
next
  case (Cons a results)
  have "disjoint_stores (st\<lparr>settledReceipts := map_set k v (settledReceipts st),
                      pendingReceipts := map_delete k (pendingReceipts st)\<rparr>)" for k v
    using Cons.prems by (auto simp: disjoint_stores_def keys_map_delete keys_map_set')
  from Cons.IH [OF this] Cons.IH [OF Cons.prems] show ?case
    by (simp split: option.splits)
qed

lemma apply_results_both_ids: "both_ids (apply_results results st) \<subseteq> both_ids st"
proof (induction results arbitrary: st)
  case Nil
  show ?case by simp
next
  case (Cons a results)
  have step: "both_ids (st\<lparr>settledReceipts := map_set k v (settledReceipts st),
                      pendingReceipts := map_delete k (pendingReceipts st)\<rparr>)
              \<subseteq> both_ids st" for k v
    by (auto simp: both_ids_def keys_map_delete keys_map_set')
  show ?case
  proof (cases "map_get (pendingReceipts st) (res_receipt_id a)")
    case None
    with Cons.IH [of st] show ?thesis by simp
  next
    case (Some p)
    show ?thesis
    proof (cases "res_status a = RSettled")
      case True
      let ?st = "st\<lparr>settledReceipts :=
                        map_set (res_receipt_id a) (promote p (res_arweave_tx a)) (settledReceipts st),
                      pendingReceipts := map_delete (res_receipt_id a) (pendingReceipts st)\<rparr>"
      from Cons.IH [of ?st] step [of "res_receipt_id a" "promote p (res_arweave_tx a)"]
      have "both_ids (apply_results results ?st) \<subseteq> both_ids st"
        by (rule subset_trans)
      with Some True show ?thesis by simp
    next
      case False
      with Some Cons.IH [of st] show ?thesis by simp
    qed
  qed
qed

lemma apply_results_store_ok:
  "store_ok K st \<Longrightarrow> store_ok K (apply_results results st)"
proof (induction results arbitrary: st)
  case Nil
  then show ?case by simp
next
  case (Cons a results)
  show ?case
  proof (cases "map_get (pendingReceipts st) (res_receipt_id a)")
    case None
    with Cons show ?thesis by simp
  next
    case (Some p)
    from Cons.prems have "list_all (pending_ok K) (pendingReceipts st)"
      by (simp add: store_ok_def)
    then have "pending_ok K (res_receipt_id a, p)"
      using Some by (rule list_all_lookup)
    then have "settled_ok K (res_receipt_id a, promote p tx)" for tx
      by (simp add: pending_ok_def settled_ok_def promote_def)
    moreover from Cons.prems
    have "distinct (map fst (map_delete (res_receipt_id a) (pendingReceipts st)))"
      "distinct (map fst (map_set (res_receipt_id a) v (settledReceipts st)))" for v
      by (simp_all add: store_ok_def map_set_def map_delete_def distinct_update distinct_delete)
    moreover from Cons.prems
    have "list_all (pending_ok K) (map_delete (res_receipt_id a) (pendingReceipts st))"
      by (simp add: store_ok_def list_all_map_delete)
    moreover from Cons.prems have "list_all (settled_ok K) (settledReceipts st)"
      by (simp add: store_ok_def)
    ultimately
    have "store_ok K (st\<lparr>settledReceipts :=
                        map_set (res_receipt_id a) (promote p tx) (settledReceipts st),
                      pendingReceipts := map_delete (res_receipt_id a) (pendingReceipts st)\<rparr>)" for tx
      by (simp add: store_ok_def list_all_map_set)
    from Cons.IH [OF this] Cons.IH [OF Cons.prems] Some show ?thesis
      by simp
  qed
qed

lemma apply_results_skips:
  "map_get (pendingReceipts st) k = None \<Longrightarrow>
   map_get (pendingReceipts (apply_results results st)) k = None
   \<and> map_get (settledReceipts (apply_results results st)) k = map_get (settledReceipts st) k"
proof (induction results arbitrary: st)
  case Nil
  then show ?case by simp
next
  case (Cons a results)
  show ?case
  proof (cases "map_get (pendingReceipts st) (res_receipt_id a)")
    case None
    with Cons show ?thesis by simp
  next
    case (Some p)
    with Cons.prems have ne: "res_receipt_id a \<noteq> k" by auto
    let ?st = "\<lambda>tx. st\<lparr>settledReceipts :=
                        map_set (res_receipt_id a) (promote p tx) (settledReceipts st),
                      pendingReceipts := map_delete (res_receipt_id a) (pendingReceipts st)\<rparr>"
    have "map_get (pendingReceipts (?st tx)) k = None" for tx
      using Cons.prems by (simp add: map_get_def map_of_map_delete)
    from Cons.IH [OF this] Cons.IH [OF Cons.prems] Some ne show ?thesis
      by (simp add: map_get_def map_of_map_set)
  qed
qed

lemma apply_results_failed:
  "list_all (\<lambda>r. res_status r = RFailed) results \<Longrightarrow> apply_results results st = st"
  by (induction results) (auto split: option.splits)



lemma witnessDecision_parts:
  "fst (witnessDecision K now nonce request st)
     = \<lparr>receipt_id = generateReceiptId (hashWitnessRequest K request now),
        signature = signHash K nonce (hashWitnessRequest K request now),
        timestamp_ms = now, hash = hashWitnessRequest K request now,
        arweave_tx = None, status = Pending\<rparr>"
  "settledReceipts (snd (witnessDecision K now nonce request st)) = settledReceipts st"
  "pendingReceipts (snd (witnessDecision K now nonce request st))
     = map_set (generateReceiptId (hashWitnessRequest K request now))
         (WitnessReceipt.extend (fst (witnessDecision K now nonce request st))
            (PendingReceipt.fields request))
         (pendingReceipts st)"
  by (simp_all add: witnessDecision_def Let_def)

lemma witnessDecision_store_ok:
  assumes sig: "\<And>nonce h. verify K h (sign K nonce h)"
    and ok: "store_ok K st"
  shows "store_ok K (snd (witnessDecision K now nonce request st))"
proof -
  let ?rid = "generateReceiptId (hashWitnessRequest K request now)"
  let ?p = "WitnessReceipt.extend (fst (witnessDecision K now nonce request st))
            (PendingReceipt.fields request)"
  have "pending_ok K (?rid, ?p)"
    using sig
    by (simp add: pending_ok_def witnessDecision_parts WitnessReceipt.defs PendingReceipt.defs
        verifySignature_def signHash_def)
  moreover from ok have "list_all (pending_ok K) (pendingReceipts st)"
    "distinct (map fst (map_set ?rid ?p (pendingReceipts st)))"
    by (simp_all add: store_ok_def map_set_def distinct_update)
  ultimately show ?thesis
    using ok by (simp add: store_ok_def witnessDecision_parts(2,3) list_all_map_set)
qed

lemma witnessDecision_all_ids:
  "all_ids (snd (witnessDecision K now nonce request st))
     = insert (receipt_id (fst (witnessDecision K now nonce request st))) (all_ids st)"
  by (simp add: all_ids_def witnessDecision_parts keys_map_set')

lemma witnessDecision_both_ids:
  "both_ids (snd (witnessDecision K now nonce request st))
     = both_ids st
       \<union> ({receipt_id (fst (witnessDecision K now nonce request st))}
            \<inter> map_keys (settledReceipts st))"
  by (auto simp: both_ids_def witnessDecision_parts keys_map_set')

lemma witnessDecision_disjoint:
  "disjoint_stores st \<Longrightarrow>
   receipt_id (fst (witnessDecision K now nonce request st)) \<notin> map_keys (settledReceipts st) \<Longrightarrow>
   disjoint_stores (snd (witnessDecision K now nonce request st))"
  by (simp add: disjoint_stores_def witnessDecision_parts keys_map_set')

lemma handleRequest_state:
  "snd (handleRequest K now nonce st req) = st
   \<or> (\<exists>raw. snd (handleRequest K now nonce st req)
             = snd (witnessDecision K now nonce (as_WitnessRequest raw) st))"
  by (auto simp: handleRequest_def Let_def split: Body.splits prod.splits) (metis snd_conv)

lemma step_store_ok:
  assumes sig: "\<And>nonce h. verify K h (sign K nonce h)"
    and ok: "store_ok K (server s)"
  shows "store_ok K (server (step K s ev))"
proof (cases ev)
  case (Http req now nonce)
  from handleRequest_state [of K now nonce "server s" req]
    witnessDecision_store_ok [OF sig ok] ok
  have "store_ok K (snd (handleRequest K now nonce (server s) req))"
    by auto
  with Http show ?thesis by simp
next
  case (Timer cfg now)
  with apply_results_store_ok [OF ok] ok show ?thesis
    by (simp add: timer_def Let_def split: option.splits)
next
  case (Completed i net)
  with apply_results_store_ok [OF ok] ok show ?thesis
    by (simp add: completed_def)
qed

lemma run_snoc: "run K (evs @ [ev]) s = step K (run K evs s) ev"
  by (simp add: run_def)

lemma run_store_ok:
  assumes sig: "\<And>nonce h. verify K h (sign K nonce h)"
  shows "store_ok K (server (run K evs initial_sched))"
proof (induction evs rule: rev_induct)
  case Nil
  show ?case
    by (simp add: run_def initial_sched_def initial_server_def store_ok_def)
next
  case (snoc ev evs)
  from step_store_ok [OF sig snoc] show ?case
    by (simp add: run_snoc)
qed


text \<open>
  The state never depends on \<open>verify\<close>: only the answer to a \<open>/verify/\<close> request does. So
  what \<open>store_ok\<close> says apart from the signatures holds of every run, whatever the crypto
  functions are.
\<close>

lemma step_verify_indep: "step (K\<lparr>verify := v\<rparr>) s ev = step K s ev"
proof (cases ev)
  case (Http req now nonce)
  have "snd (handleRequest (K\<lparr>verify := v\<rparr>) now nonce (server s) req)
      = snd (handleRequest K now nonce (server s) req)"
    by (simp add: handleRequest_def witnessDecision_def hashWitnessRequest_def signHash_def
        Let_def split: Body.splits)
  with Http show ?thesis by simp
next
  case (Timer cfg clock)
  then show ?thesis by simp
next
  case (Completed i net)
  then show ?thesis by simp
qed

lemma run_verify_indep: "run (K\<lparr>verify := v\<rparr>) evs s = run K evs s"
  by (induction evs rule: rev_induct) (simp_all add: run_snoc step_verify_indep, simp add: run_def)

lemma run_filed_ok:
  "store_ok (K\<lparr>verify := (\<lambda>h sg. True)\<rparr>) (server (run K evs initial_sched))"
  using run_store_ok [of "K\<lparr>verify := (\<lambda>h sg. True)\<rparr>" evs]
  by (simp add: run_verify_indep)





lemma step_all_ids: "all_ids (server s) \<subseteq> all_ids (server (step K s ev))"
proof (cases ev)
  case (Http req now nonce)
  from handleRequest_state [of K now nonce "server s" req] witnessDecision_all_ids
  have "all_ids (server s) \<subseteq> all_ids (snd (handleRequest K now nonce (server s) req))"
    by auto
  with Http show ?thesis by simp
next
  case (Timer cfg now)
  then show ?thesis
    by (simp add: timer_def Let_def apply_results_all_ids split: option.splits)
next
  case (Completed i net)
  then show ?thesis
    by (simp add: completed_def apply_results_all_ids)
qed

lemma timer_both_ids: "both_ids (server (timer cfg clock s)) \<subseteq> both_ids (server s)"
  by (simp add: timer_def Let_def apply_results_both_ids split: option.splits)

lemma completed_both_ids: "both_ids (server (completed i net s)) \<subseteq> both_ids (server s)"
  by (simp add: completed_def apply_results_both_ids)

lemma run_all_ids: "all_ids (server s) \<subseteq> all_ids (server (run K evs s))"
proof (induction evs rule: rev_induct)
  case Nil
  show ?case by (simp add: run_def)
next
  case (snoc ev evs)
  with step_all_ids [of "run K evs s" K ev] show ?case
    by (auto simp: run_snoc)
qed

lemma status_map_set:
  "x \<notin> f ` snd ` set m \<Longrightarrow> f v \<noteq> x \<Longrightarrow> x \<notin> f ` snd ` set (map_set k v m)"
  unfolding map_set_def by (induction m) auto

lemma status_map_delete:
  "x \<notin> f ` snd ` set m \<Longrightarrow> x \<notin> f ` snd ` set (map_delete k m)"
  unfolding map_delete_def by (induction m) auto

lemma apply_results_no_failed: "no_failed st \<Longrightarrow> no_failed (apply_results results st)"
proof (induction results arbitrary: st)
  case Nil
  then show ?case by simp
next
  case (Cons a results)
  have "status (promote p tx) \<noteq> Failed" for p tx
    by (simp add: promote_def)
  with Cons.prems
  have "no_failed (st\<lparr>settledReceipts := map_set k (promote p tx) (settledReceipts st),
                      pendingReceipts := map_delete k (pendingReceipts st)\<rparr>)" for k p tx
    by (simp add: no_failed_def status_map_set status_map_delete)
  from Cons.IH [OF this] Cons.IH [OF Cons.prems] show ?case
    by (simp split: option.splits)
qed

lemma witnessDecision_no_failed:
  assumes "no_failed st"
  shows "no_failed (snd (witnessDecision K now nonce request st))"
proof -
  have "status (WitnessReceipt.extend (fst (witnessDecision K now nonce request st))
            (PendingReceipt.fields request)) \<noteq> Failed"
    by (simp add: witnessDecision_parts(1) WitnessReceipt.defs PendingReceipt.defs)
  with assms show ?thesis
    by (simp add: no_failed_def witnessDecision_parts(2,3) status_map_set)
qed

lemma step_no_failed: "no_failed (server s) \<Longrightarrow> no_failed (server (step K s ev))"
proof (cases ev)
  case (Http req now nonce)
  assume ok: "no_failed (server s)"
  from handleRequest_state [of K now nonce "server s" req] witnessDecision_no_failed [OF ok] ok
  have "no_failed (snd (handleRequest K now nonce (server s) req))"
    by auto
  with Http show ?thesis by simp
next
  case (Timer cfg now)
  assume ok: "no_failed (server s)"
  with Timer apply_results_no_failed [OF ok] show ?thesis
    by (simp add: timer_def Let_def split: option.splits)
next
  case (Completed i net)
  assume ok: "no_failed (server s)"
  with Completed apply_results_no_failed [OF ok] show ?thesis
    by (simp add: completed_def)
qed

lemma run_no_failed: "no_failed (server (run K evs initial_sched))"
proof (induction evs rule: rev_induct)
  case Nil
  show ?case
    by (simp add: run_def initial_sched_def initial_server_def no_failed_def)
next
  case (snoc ev evs)
  from step_no_failed [OF snoc] show ?case
    by (simp add: run_snoc)
qed





lemma simulate_all_ids:
  "map res_receipt_id (simulate_all clock n batch) = map receipt_id batch"
  by (induction batch arbitrary: n) (simp_all add: simulated_def)

lemma simulate_all_settled:
  "list_all (\<lambda>r. res_status r = RSettled) (simulate_all clock n batch)"
  by (induction batch arbitrary: n) (simp_all add: simulated_def)

lemma length_simulate_all: "length (simulate_all clock n batch) = length batch"
  by (induction batch arbitrary: n) simp_all

lemma simulate_all_nth:
  "i < length batch \<Longrightarrow>
   simulate_all clock n batch ! i
     = simulated (clock (n + 2 * i)) (clock (Suc (n + 2 * i))) (batch ! i)"
proof (induction batch arbitrary: n i)
  case Nil
  then show ?case by simp
next
  case (Cons r rs)
  show ?case
  proof (cases i)
    case 0
    then show ?thesis by simp
  next
    case (Suc j)
    with Cons.prems have "j < length rs" by simp
    from Cons.IH [OF this, of "Suc (Suc n)"] Suc show ?thesis by simp
  qed
qed

lemma pending_entry:
  assumes "store_ok K st" "(k, p) \<in> set (pendingReceipts st)"
  shows "map_get (pendingReceipts st) k = Some p" "receipt_id p = k"
    "k \<in> receipt_id ` set (map_values (pendingReceipts st))"
proof -
  from assms show a: "map_get (pendingReceipts st) k = Some p"
    by (simp add: store_ok_def map_get_def)
  from assms have "list_all (pending_ok K) (pendingReceipts st)"
    by (simp add: store_ok_def)
  from list_all_lookup [OF this a] show b: "receipt_id p = k"
    by (simp add: pending_ok_def)
  from assms(2) b show "k \<in> receipt_id ` set (map_values (pendingReceipts st))"
    by (force simp: map_values_def)
qed

lemma apply_results_removes:
  assumes "list_all (\<lambda>r. res_status r = RSettled) results"
    and "k \<in> res_receipt_id ` set results"
  shows "map_get (pendingReceipts (apply_results results st)) k = None"
  using assms
proof (induction results arbitrary: st)
  case Nil
  then show ?case by simp
next
  case (Cons a results)
  from Cons.prems(1) have a: "res_status a = RSettled"
    and rest: "list_all (\<lambda>r. res_status r = RSettled) results"
    by simp_all
  let ?st = "\<lambda>q. st\<lparr>settledReceipts :=
                        map_set (res_receipt_id a) (promote q (res_arweave_tx a)) (settledReceipts st),
                      pendingReceipts := map_delete (res_receipt_id a) (pendingReceipts st)\<rparr>"
  show ?case
  proof (cases "res_receipt_id a = k")
    case True
    have gone: "map_get (pendingReceipts (?st q)) k = None" for q
      using True by (simp add: map_get_def map_of_map_delete)
    show ?thesis
    proof (cases "map_get (pendingReceipts st) k")
      case None
      from apply_results_skips [OF this, of results] None True show ?thesis by simp
    next
      case (Some q)
      from apply_results_skips [OF gone [of q], of results] Some True a show ?thesis by simp
    qed
  next
    case False
    with Cons.prems(2) have k: "k \<in> res_receipt_id ` set results" by auto
    from Cons.IH [OF rest k] a show ?thesis
      by (simp split: option.splits)
  qed
qed

lemma apply_results_promotes_member:
  assumes "list_all (\<lambda>r. res_status r = RSettled) results"
    and "distinct (map res_receipt_id results)"
    and "res \<in> set results"
    and "map_get (pendingReceipts st) (res_receipt_id res) = Some p"
  shows "map_get (settledReceipts (apply_results results st)) (res_receipt_id res)
         = Some (promote p (res_arweave_tx res))"
  using assms
proof (induction results arbitrary: st)
  case Nil
  then show ?case by simp
next
  case (Cons a results)
  from Cons.prems(1) have a: "res_status a = RSettled"
    and rest: "list_all (\<lambda>r. res_status r = RSettled) results"
    by simp_all
  from Cons.prems(2) have dist: "distinct (map res_receipt_id results)"
    and fresh: "res_receipt_id a \<notin> res_receipt_id ` set results"
    by simp_all
  show ?case
  proof (cases "res = a")
    case True
    let ?st = "st\<lparr>settledReceipts :=
                        map_set (res_receipt_id a) (promote p (res_arweave_tx a)) (settledReceipts st),
                   pendingReceipts := map_delete (res_receipt_id a) (pendingReceipts st)\<rparr>"
    have "map_get (pendingReceipts ?st) (res_receipt_id a) = None"
      by (simp add: map_get_def map_of_map_delete)
    from apply_results_skips [OF this, of results]
    have "map_get (settledReceipts (apply_results results ?st)) (res_receipt_id a)
        = Some (promote p (res_arweave_tx a))"
      by (simp add: map_get_def map_of_map_set)
    with True a Cons.prems(4) show ?thesis by simp
  next
    case False
    with Cons.prems(3) have mem: "res \<in> set results" by simp
    with fresh have ne: "res_receipt_id a \<noteq> res_receipt_id res" by auto
    show ?thesis
    proof (cases "map_get (pendingReceipts st) (res_receipt_id a)")
      case None
      with Cons.IH [OF rest dist mem Cons.prems(4)] show ?thesis by simp
    next
      case (Some q)
      let ?st = "st\<lparr>settledReceipts :=
                        map_set (res_receipt_id a) (promote q (res_arweave_tx a)) (settledReceipts st),
                      pendingReceipts := map_delete (res_receipt_id a) (pendingReceipts st)\<rparr>"
      have "map_get (pendingReceipts ?st) (res_receipt_id res) = Some p"
        using Cons.prems(4) ne by (simp add: map_get_def map_of_map_delete)
      from Cons.IH [OF rest dist mem this] Some a show ?thesis by simp
    qed
  qed
qed

lemma apply_results_clears:
  assumes ok: "store_ok K st"
    and res: "list_all (\<lambda>r. res_status r = RSettled) results"
    and ids: "res_receipt_id ` set results = receipt_id ` set (map_values (pendingReceipts st))"
  shows "pendingReceipts (apply_results results st) = []"
proof (rule ccontr)
  assume "pendingReceipts (apply_results results st) \<noteq> []"
  then obtain k q where kq: "(k, q) \<in> set (pendingReceipts (apply_results results st))"
    by (cases "pendingReceipts (apply_results results st)") auto
  from pending_entry(1) [OF apply_results_store_ok [OF ok] kq]
  have still: "map_get (pendingReceipts (apply_results results st)) k = Some q" .
  show False
  proof (cases "map_get (pendingReceipts st) k")
    case None
    from apply_results_skips [OF this, of results] still show False by simp
  next
    case (Some p)
    then have "(k, p) \<in> set (pendingReceipts st)"
      by (simp add: map_get_def map_of_SomeD)
    from pending_entry(3) [OF ok this] ids have "k \<in> res_receipt_id ` set results"
      by simp
    from apply_results_removes [OF res this, of st] still show False by simp
  qed
qed

lemma batch_ids:
  assumes "store_ok K st"
  shows "map receipt_id (map_values (pendingReceipts st)) = map fst (pendingReceipts st)"
proof -
  have aux: "list_all (pending_ok K) m \<Longrightarrow> map receipt_id (map snd m) = map fst m" for m
    by (induction m) (simp_all add: pending_ok_def)
  from assms have "list_all (pending_ok K) (pendingReceipts st)"
    by (simp add: store_ok_def)
  from aux [OF this] show ?thesis
    unfolding map_values_def .
qed

section \<open>Verification\<close>

text \<open>
  Claim C6. \<open>verifyReceipt\<close> answers from the settled map when the id is there and from
  the pending map otherwise. An id in neither map gives \<open>valid = false\<close>, no receipt and
  the message \<open>Receipt not found\<close>; the message \<open>Invalid signature\<close> is given exactly when
  a record was found and its signature does not verify, so the two reasons never coincide.
  The \<open>/verify/\<close> route returns the state it was given.
\<close>

theorem verify_reports_not_found_and_invalid_apart:
  "(map_get (settledReceipts st) rid = None \<and> map_get (pendingReceipts st) rid = None \<longrightarrow>
      verifyReceipt K st rid = \<lparr>valid = False, receipt = None, message = ''Receipt not found''\<rparr>)
   \<and> (map_get (settledReceipts st) rid = Some s \<longrightarrow>
      verifyReceipt K st rid =
        \<lparr>valid = verifySignature K (hash s) (signature s), receipt = Some s,
         message = (if verifySignature K (hash s) (signature s)
                    then ''Receipt verified and settled'' else ''Invalid signature'')\<rparr>)
   \<and> (map_get (settledReceipts st) rid = None \<and> map_get (pendingReceipts st) rid = Some p \<longrightarrow>
      verifyReceipt K st rid =
        \<lparr>valid = verifySignature K (hash p) (signature p),
         receipt = Some (WitnessReceipt.truncate p),
         message = (if verifySignature K (hash p) (signature p)
                    then ''Receipt verified, settlement pending'' else ''Invalid signature'')\<rparr>)
   \<and> (message (verifyReceipt K st rid) = ''Invalid signature'' \<longleftrightarrow>
        receipt (verifyReceipt K st rid) \<noteq> None \<and> \<not> valid (verifyReceipt K st rid))
   \<and> (message (verifyReceipt K st rid) = ''Receipt not found'' \<longleftrightarrow>
        map_get (settledReceipts st) rid = None \<and> map_get (pendingReceipts st) rid = None)
   \<and> handleRequest K now nonce st \<lparr>http_method = ''GET'', pathname = ''/verify/'' @ rid, body = b\<rparr>
       = (sendJson (if valid (verifyReceipt K st rid) then 200 else 404)
            (VerifyBody (verifyReceipt K st rid)), st)"
  by (auto simp: verifyReceipt_def handleRequest_def Let_def split: option.splits)

theorem verify_reports_not_found_and_invalid_apart_example:
  "verifyReceipt toy_crypto tampered ''vts_unknown''
     = \<lparr>valid = False, receipt = None, message = ''Receipt not found''\<rparr>
   \<and> verifyReceipt toy_crypto tampered ''vts_bad''
     = \<lparr>valid = False,
        receipt = Some \<lparr>receipt_id = ''vts_bad'', signature = ''forged'', timestamp_ms = 500,
                        hash = ''500cla'', arweave_tx = Some ''m0'', status = Settled\<rparr>,
        message = ''Invalid signature''\<rparr>
   \<and> verifyReceipt toy_crypto tampered ''vts_1000cla''
     = \<lparr>valid = True, receipt = Some receipt_1000,
        message = ''Receipt verified, settlement pending''\<rparr>
   \<and> snd (handleRequest toy_crypto 0 0 tampered
          \<lparr>http_method = ''GET'', pathname = ''/verify/vts_bad'', body = JsonNull\<rparr>) = tampered"
proof -
  have a: "map_get (settledReceipts tampered) ''vts_unknown'' = None
      \<and> map_get (pendingReceipts tampered) ''vts_unknown'' = None"
    by (simp add: tampered_def map_get_def)
  have b: "map_get (settledReceipts tampered) ''vts_bad''
      = Some \<lparr>receipt_id = ''vts_bad'', signature = ''forged'', timestamp_ms = 500,
                hash = ''500cla'', arweave_tx = Some ''m0'', status = Settled\<rparr>"
    by (simp add: tampered_def map_get_def)
  have c: "map_get (settledReceipts tampered) ''vts_1000cla'' = None
      \<and> map_get (pendingReceipts tampered) ''vts_1000cla'' = Some pending_1000"
    by (simp add: tampered_def map_get_def)
  have v: "\<not> verifySignature toy_crypto ''500cla'' ''forged''"
    "verifySignature toy_crypto (hash pending_1000) (signature pending_1000)"
    "WitnessReceipt.truncate pending_1000 = receipt_1000"
    by (simp_all add: verifySignature_def toy_crypto_def pending_1000_def receipt_1000_def
        WitnessReceipt.defs PendingReceipt.defs)
  from verify_reports_not_found_and_invalid_apart [of tampered "''vts_unknown''" toy_crypto] a
  have 1: "verifyReceipt toy_crypto tampered ''vts_unknown''
     = \<lparr>valid = False, receipt = None, message = ''Receipt not found''\<rparr>"
    by blast
  from verify_reports_not_found_and_invalid_apart [of tampered "''vts_bad''" toy_crypto _ _ 0 0 JsonNull] b v
  have 2: "verifyReceipt toy_crypto tampered ''vts_bad''
     = \<lparr>valid = False,
        receipt = Some \<lparr>receipt_id = ''vts_bad'', signature = ''forged'', timestamp_ms = 500,
                        hash = ''500cla'', arweave_tx = Some ''m0'', status = Settled\<rparr>,
        message = ''Invalid signature''\<rparr>"
    and 4: "snd (handleRequest toy_crypto 0 0 tampered
          \<lparr>http_method = ''GET'', pathname = ''/verify/vts_bad'', body = JsonNull\<rparr>) = tampered"
    by simp_all
  from verify_reports_not_found_and_invalid_apart [of tampered "''vts_1000cla''" toy_crypto _ pending_1000] c v
  have 3: "verifyReceipt toy_crypto tampered ''vts_1000cla''
     = \<lparr>valid = True, receipt = Some receipt_1000,
        message = ''Receipt verified, settlement pending''\<rparr>"
    by simp
  from 1 2 3 4 show ?thesis by simp
qed

section \<open>Validation of a witness request\<close>

text \<open>
  Claim C7. A \<open>/witness\<close> request whose context, logic or action is missing or empty is
  answered 400 with the missing-fields error and the state is returned unchanged. The
  answer is the same whatever the crypto functions, the clock and the nonce are: nothing
  is hashed or signed for it. A body that is not JSON, or is the JSON value \<open>null\<close>,
  leaves the state unchanged too.
\<close>

theorem witness_rejects_missing_fields:
  "falsy (raw_context raw) \<or> falsy (raw_logic raw) \<or> falsy (raw_action raw) \<Longrightarrow>
   handleRequest K now nonce st
       \<lparr>http_method = ''POST'', pathname = ''/witness'', body = JsonObject raw\<rparr>
     = (sendJson 400 (ErrorBody ''Missing required fields: context, logic, action''), st)
   \<and> (\<forall>K' now' nonce'.
        handleRequest K' now' nonce' st
          \<lparr>http_method = ''POST'', pathname = ''/witness'', body = JsonObject raw\<rparr>
        = handleRequest K now nonce st
          \<lparr>http_method = ''POST'', pathname = ''/witness'', body = JsonObject raw\<rparr>)
   \<and> snd (handleRequest K now nonce st
          \<lparr>http_method = ''POST'', pathname = ''/witness'', body = JsonNull\<rparr>) = st
   \<and> snd (handleRequest K now nonce st
          \<lparr>http_method = ''POST'', pathname = ''/witness'', body = BadJson\<rparr>) = st"
  by (auto simp: handleRequest_def)

theorem witness_rejects_missing_fields_example:
  "handleRequest toy_crypto 1000 7 initial_server
       \<lparr>http_method = ''POST'', pathname = ''/witness'', body = JsonObject raw_empty_context\<rparr>
     = (sendJson 400 (ErrorBody ''Missing required fields: context, logic, action''),
        initial_server)"
proof -
  have "falsy (raw_context raw_empty_context) \<or> falsy (raw_logic raw_empty_context)
      \<or> falsy (raw_action raw_empty_context)"
    by (simp add: raw_empty_context_def falsy_def)
  from witness_rejects_missing_fields [OF this, of toy_crypto 1000 7 initial_server]
  show ?thesis by blast
qed

section \<open>What the settler discloses to the ledger\<close>

lemma length_to_base:
  "2 \<le> b \<Longrightarrow> 0 < k \<Longrightarrow> n < b ^ k \<Longrightarrow> length (to_base b n) \<le> k"
proof (induction k arbitrary: n)
  case 0
  then show ?case by simp
next
  case (Suc k)
  show ?case
  proof (cases "n < b")
    case True
    then show ?thesis by (simp add: to_base.simps)
  next
    case False
    with Suc.prems have k: "0 < k"
      by (cases k) auto
    from Suc.prems have "n div b < b ^ k"
      by (simp add: less_mult_imp_div_less mult.commute)
    from Suc.IH [OF Suc.prems(1) k this] False Suc.prems(1) show ?thesis
      by (subst to_base.simps) simp
  qed
qed

lemma length_hashString: "length (hashString s) \<le> 8"
proof -
  let ?w = "hashString_loop 0 s"
  have "- (2 ^ 31) \<le> sint ?w" "sint ?w < 2 ^ 31"
    using sint_range_size [of ?w] by (simp_all add: word_size)
  then have "nat \<bar>sint ?w\<bar> < 16 ^ 8" by simp
  then show ?thesis
    unfolding hashString_def by (intro length_to_base) simp_all
qed


lemma hashString_Aa: "hashString ''Aa'' = ''840''" "hashString ''BB'' = ''840''"
  by (simp_all add: hashString_def to_base.simps digit_char_def)

text \<open>
  The claim C8 as written says the full logic text is never disclosed. The request of the
  deployment guide (logic \<open>Test reasoning\<close>) is witnessed and its batch is built: the
  entry's \<open>logic_summary\<close> is the whole logic text.
\<close>

theorem short_logic_is_forwarded_in_full:
  "map logic_summary
     (b_receipts (batchPayload 3000
        (map_values (pendingReceipts
           (snd (witnessDecision toy_crypto 2000 1 readme_request initial_server))))))
     = [''Test reasoning'']
   \<and> logic readme_request = ''Test reasoning''
   \<and> submitted cfg_ok (steady 3000)
        (map_values (pendingReceipts
           (snd (witnessDecision toy_crypto 2000 1 readme_request initial_server))))
      = Some (batchPayload 3000
        (map_values (pendingReceipts
           (snd (witnessDecision toy_crypto 2000 1 readme_request initial_server)))))"
  by (simp add: witnessDecision_def Let_def initial_server_def map_set_def map_values_def
      batchPayload_def batch_entry_def readme_request_def WitnessReceipt.defs PendingReceipt.defs
      submitted_def config_results_def cfg_ok_def or_null_def falsy_def steady_def)

lemma hex_digits_to_base:
  "list_all (\<lambda>c. c \<in> set ''0123456789abcdef'') (to_base 16 n)"
proof (induction n rule: less_induct)
  case (less n)
  have digit: "d < 16 \<Longrightarrow> digit_char d \<in> set ''0123456789abcdef''" for d
    unfolding digit_char_def by (rule nth_mem) simp
  show ?case
  proof (cases "n < 16")
    case True
    with digit [of n] show ?thesis
      by (subst to_base.simps) simp
  next
    case False
    then have "n div 16 < n" by simp
    from less [OF this] digit [of "n mod 16"] False show ?thesis
      by (subst to_base.simps) simp
  qed
qed

text \<open>
  Claim C8, amended. Every entry of a submitted batch is \<open>batch_entry\<close> of its receipt:
  the receipt's id, hash, signature and timestamp, and of the decision record
  \<open>hashString\<close> of the context (at most 8 characters, all hexadecimal digits) in place of
  the context, the first 200 characters of the logic, the full action, and
  \<open>agent_id || null\<close>. The \<open>logic_summary\<close> is the whole logic text exactly when the logic
  has at most 200 characters. The batch that is submitted carries these entries, their
  number and the time of the one clock reading.
\<close>

theorem batch_entry_discloses_digest_and_prefix:
  "batch_entry r =
      \<lparr>b_receipt_id = receipt_id r, b_hash = hash r, b_signature = signature r,
       b_timestamp_ms = timestamp_ms r,
       context_hash = hashString (context_text (full_payload r)),
       logic_summary = take 200 (logic (full_payload r)),
       b_action = action (full_payload r),
       b_agent_id = or_null (agent_id (full_payload r))\<rparr>
   \<and> length (context_hash (batch_entry r)) \<le> 8
   \<and> list_all (\<lambda>c. c \<in> set ''0123456789abcdef'') (context_hash (batch_entry r))
   \<and> length (logic_summary (batch_entry r)) \<le> 200
   \<and> (logic_summary (batch_entry r) = logic (full_payload r)
        \<longleftrightarrow> length (logic (full_payload r)) \<le> 200)
   \<and> (submitted cfg clock batch = Some p \<longrightarrow>
        p = \<lparr>b_type = ''VeritasReceiptBatch'', b_count = length batch,
             b_receipts = map batch_entry batch, settled_at = clock 0\<rparr>)"
proof -
  have "take 200 (logic (full_payload r)) = logic (full_payload r)
        \<longleftrightarrow> length (logic (full_payload r)) \<le> 200"
    by (metis length_take min.absorb2 min.cobounded2 take_all)
  moreover have "submitted cfg clock batch = Some p \<longrightarrow>
        p = \<lparr>b_type = ''VeritasReceiptBatch'', b_count = length batch,
             b_receipts = map batch_entry batch, settled_at = clock 0\<rparr>"
    by (auto simp: submitted_def batchPayload_def split: option.splits)
  moreover have "list_all (\<lambda>c. c \<in> set ''0123456789abcdef'')
      (hashString (context_text (full_payload r)))"
    unfolding hashString_def by (rule hex_digits_to_base)
  ultimately show ?thesis
    using length_hashString [of "context_text (full_payload r)"]
    by (simp add: batch_entry_def)
qed

theorem batch_entry_discloses_digest_and_prefix_example:
  "context_hash (batch_entry long_pending) = ''840''
   \<and> length (logic_summary (batch_entry long_pending)) = 200
   \<and> logic_summary (batch_entry long_pending) \<noteq> logic (full_payload long_pending)
   \<and> logic_summary (batch_entry pending_1000) = logic (full_payload pending_1000)
   \<and> b_agent_id (batch_entry long_pending) = None
   \<and> b_hash (batch_entry long_pending) = ''1000cla''
   \<and> submitted cfg_ok (steady 3000) [pending_1000, long_pending]
       = Some \<lparr>b_type = ''VeritasReceiptBatch'', b_count = 2,
               b_receipts = [batch_entry pending_1000, batch_entry long_pending],
               settled_at = 3000\<rparr>"
proof -
  have ctx: "context_text (full_payload long_pending) = ''Aa''"
    and lg: "logic (full_payload long_pending) = replicate 201 (CHR ''x'')"
    and ag: "agent_id (full_payload long_pending) = Some []"
    and hs: "hash long_pending = ''1000cla''"
    and l1: "logic (full_payload pending_1000) = ''l''"
    by (simp_all add: long_pending_def pending_1000_def receipt_1000_def WitnessReceipt.defs
        PendingReceipt.defs as_WitnessRequest_def raw_cla_def str_of_def)
  have sub: "submitted cfg_ok (steady 3000) [pending_1000, long_pending]
      = Some (batchPayload 3000 [pending_1000, long_pending])"
    by (simp add: submitted_def config_results_def cfg_ok_def or_null_def falsy_def steady_def)
  from batch_entry_discloses_digest_and_prefix [of long_pending cfg_ok "steady 3000"
      "[pending_1000, long_pending]" "batchPayload 3000 [pending_1000, long_pending]"]
    ctx lg ag hs sub hashString_Aa
  have "context_hash (batch_entry long_pending) = ''840''"
    "length (logic_summary (batch_entry long_pending)) = 200"
    "logic_summary (batch_entry long_pending) \<noteq> logic (full_payload long_pending)"
    "b_agent_id (batch_entry long_pending) = None"
    "b_hash (batch_entry long_pending) = ''1000cla''"
    "batchPayload 3000 [pending_1000, long_pending]
       = \<lparr>b_type = ''VeritasReceiptBatch'', b_count = 2,
               b_receipts = [batch_entry pending_1000, batch_entry long_pending],
               settled_at = 3000\<rparr>"
    by (simp_all add: or_null_def falsy_def steady_def)
  moreover from batch_entry_discloses_digest_and_prefix [of pending_1000] l1
  have "logic_summary (batch_entry pending_1000) = logic (full_payload pending_1000)"
    by simp
  ultimately show ?thesis using sub by simp
qed

section \<open>Runs of the event loop on the scenarios\<close>

lemma show_int_3000: "show_int 3000 = ''3000''"
  by (simp add: show_int_def to_base.simps digit_char_def)

lemma toy_witness_1000:
  "handleRequest toy_crypto 1000 nonce st witness_post
   = (sendJson 200 (WitnessBody receipt_1000),
      st\<lparr>pendingReceipts := map_set ''vts_1000cla'' pending_1000 (pendingReceipts st)\<rparr>)"
  by (simp add: handleRequest_def witness_post_def raw_cla_def falsy_def witnessDecision_def
      Let_def hashWitnessRequest_def generateReceiptId_def signHash_def toy_crypto_def
      as_WitnessRequest_def str_of_def show_int_1000 receipt_1000_def pending_1000_def)

lemma toy_witness_3000:
  "handleRequest toy_crypto 3000 nonce st witness_post
   = (sendJson 200 (WitnessBody receipt_3000),
      st\<lparr>pendingReceipts := map_set ''vts_3000cla'' pending_3000 (pendingReceipts st)\<rparr>)"
  by (simp add: handleRequest_def witness_post_def raw_cla_def falsy_def witnessDecision_def
      Let_def hashWitnessRequest_def generateReceiptId_def signHash_def toy_crypto_def
      as_WitnessRequest_def str_of_def show_int_3000 receipt_3000_def pending_3000_def)

lemma toy_ids:
  "receipt_id pending_1000 = ''vts_1000cla''" "receipt_id pending_3000 = ''vts_3000cla''"
  "status pending_1000 = Pending" "status pending_3000 = Pending"
  by (simp_all add: pending_1000_def pending_3000_def receipt_1000_def receipt_3000_def
      WitnessReceipt.defs PendingReceipt.defs)

lemma cfg_evals:
  "config_results cfg_ok clock batch = None"
  "config_results cfg_no_process clock batch = Some (simulate_all clock 0 batch)"
  "config_results cfg_no_wallet clock batch
     = Some (map (failed_result ''No wallet configured'') batch)"
  by (simp_all add: config_results_def cfg_ok_def cfg_no_process_def cfg_no_wallet_def
      or_null_def falsy_def)

lemma run_one_pending:
  "run toy_crypto [Http witness_post 1000 7] initial_sched
   = \<lparr>server = one_pending, in_flight = []\<rparr>"
  by (simp add: run_def toy_witness_1000 initial_sched_def initial_server_def one_pending_def
      map_set_def)

lemma run_overlap:
  "run toy_crypto [Http witness_post 1000 7, Timer cfg_ok (steady 2000), Timer cfg_ok (steady 12000)] initial_sched
   = \<lparr>server = one_pending, in_flight = [[pending_1000], [pending_1000]]\<rparr>"
  using run_one_pending
  by (simp add: run_def timer_def cfg_evals one_pending_def map_values_def)

lemma run_simulated:
  "run toy_crypto [Http witness_post 1000 7, Timer cfg_no_process (steady 1000)] initial_sched
   = \<lparr>server = \<lparr>pendingReceipts = [],
                 settledReceipts = [(''vts_1000cla'',
                    promote pending_1000 (Some ''sim_1000_vts_1000cla''))]\<rparr>,
      in_flight = []\<rparr>"
  using run_one_pending
  by (simp add: run_def timer_def cfg_evals one_pending_def map_values_def simulated_def toy_ids
      map_get_def map_set_def map_delete_def show_int_1000 steady_def)

lemma run_no_wallet:
  "run toy_crypto [Http witness_post 1000 7, Timer cfg_no_wallet (steady 2000)] initial_sched
   = \<lparr>server = one_pending, in_flight = []\<rparr>"
  using run_one_pending
  by (simp add: run_def timer_def cfg_evals one_pending_def map_values_def failed_result_def
      toy_ids map_get_def)

lemma run_both_stores:
  "run toy_crypto [Http witness_post 1000 7, Timer cfg_no_process (steady 1000), Http witness_post 1000 8]
     initial_sched
   = \<lparr>server = \<lparr>pendingReceipts = [(''vts_1000cla'', pending_1000)],
                 settledReceipts = [(''vts_1000cla'',
                    promote pending_1000 (Some ''sim_1000_vts_1000cla''))]\<rparr>,
      in_flight = []\<rparr>"
proof -
  have "run toy_crypto [Http witness_post 1000 7, Timer cfg_no_process (steady 1000), Http witness_post 1000 8]
     initial_sched
     = step toy_crypto
         (run toy_crypto [Http witness_post 1000 7, Timer cfg_no_process (steady 1000)] initial_sched)
         (Http witness_post 1000 8)"
    by (simp add: run_def)
  then show ?thesis
    by (simp add: run_simulated toy_witness_1000 map_set_def)
qed





lemma toy_witnessDecision_1000:
  "witnessDecision toy_crypto 1000 nonce (as_WitnessRequest raw_cla) st
   = (receipt_1000,
      st\<lparr>pendingReceipts := map_set ''vts_1000cla'' pending_1000 (pendingReceipts st)\<rparr>)"
  by (simp add: witnessDecision_def
      Let_def hashWitnessRequest_def generateReceiptId_def signHash_def toy_crypto_def
      as_WitnessRequest_def raw_cla_def str_of_def show_int_1000 receipt_1000_def pending_1000_def)


lemma run_idle_two:
  "run toy_crypto [Http witness_post 1000 7, Http witness_post 3000 8] initial_sched = idle_two"
  using run_one_pending
  by (simp add: run_def idle_two_def one_pending_def two_pending_def toy_witness_3000 map_set_def)



section \<open>Settlement\<close>

lemma timer_starts_tick:
  assumes "pendingReceipts (server s) \<noteq> []" "or_null (VERITAS_PROCESS_ID cfg) \<noteq> None"
    "loadWallet cfg \<noteq> None"
  shows "timer cfg clock s
         = s\<lparr>in_flight := in_flight s @ [map_values (pendingReceipts (server s))]\<rparr>"
  using assms by (auto simp: timer_def config_results_def Let_def split: option.splits)

lemma no_wallet_results:
  assumes "or_null (VERITAS_PROCESS_ID cfg) \<noteq> None" "loadWallet cfg = None"
  shows "config_results cfg clock batch
         = Some (map (failed_result ''No wallet configured'') batch)"
  using assms by (auto simp: config_results_def split: option.splits)

lemma no_process_results:
  assumes "or_null (VERITAS_PROCESS_ID cfg) = None"
  shows "config_results cfg clock batch = Some (simulate_all clock 0 batch)"
  using assms by (simp add: config_results_def)

lemma failed_results_apply: "apply_results (map (failed_result e) batch) st = st"
  by (rule apply_results_failed) (simp add: list_all_iff failed_result_def)

text \<open>
  The claim C1 as written has the tick mark the receipts \<open>failed\<close>. With no process id
  configured the settler reports simulated success and the receipt is settled under a
  \<open>sim_\<close> transaction; with no wallet the tick changes nothing, and the receipt is still
  pending, with status \<open>pending\<close>, for the next tick.
\<close>

theorem configuration_failure_does_not_mark_failed:
  "map_get (settledReceipts (server
      (run toy_crypto [Http witness_post 1000 7, Timer cfg_no_process (steady 1000)] initial_sched)))
      ''vts_1000cla''
     = Some (promote pending_1000 (Some ''sim_1000_vts_1000cla''))
   \<and> status (promote pending_1000 (Some ''sim_1000_vts_1000cla'')) = Settled
   \<and> run toy_crypto [Http witness_post 1000 7, Timer cfg_no_wallet (steady 2000)] initial_sched
     = run toy_crypto [Http witness_post 1000 7] initial_sched
   \<and> map_get (pendingReceipts (server
      (run toy_crypto [Http witness_post 1000 7, Timer cfg_no_wallet (steady 2000)] initial_sched)))
      ''vts_1000cla''
     = Some pending_1000
   \<and> status pending_1000 = Pending"
  by (simp add: run_simulated run_no_wallet run_one_pending map_get_def promote_def toy_ids
      one_pending_def)

text \<open>
  Claim C1, amended. With no process id configured, \<open>settleToArweave\<close> returns a
  simulated result for every receipt, the one at position \<open>i\<close> of the batch made from
  readings \<open>2 i\<close> and \<open>2 i + 1\<close> of the clock; in every state the server reaches, the
  tick settles every pending receipt under its own \<open>sim_\<close> transaction id and empties
  the pending map. With a process id and no wallet it returns a failed result
  (\<open>No wallet configured\<close>) for every receipt, and the tick and the timer leave the state
  as it was, so the same receipts are handed to the settler again at the next tick. In no
  state reached from the initial one does a receipt of either map have status \<open>failed\<close>.
\<close>

theorem configuration_failures_simulate_or_retry:
  "(or_null (VERITAS_PROCESS_ID cfg) = None \<longrightarrow>
      settleToArweave cfg clock net batch = simulate_all clock 0 batch
      \<and> length (settleToArweave cfg clock net batch) = length batch)
   \<and> (or_null (VERITAS_PROCESS_ID cfg) = None \<and> j < length batch \<longrightarrow>
        settleToArweave cfg clock net batch ! j
          = \<lparr>res_receipt_id = receipt_id (batch ! j),
             res_arweave_tx =
               Some (''sim_'' @ show_int (clock (2 * j)) @ ''_'' @ receipt_id (batch ! j)),
             ao_message_id = Some (''sim_msg_'' @ show_int (clock (2 * j + 1))),
             res_status = RSettled, res_error = None\<rparr>)
   \<and> (or_null (VERITAS_PROCESS_ID cfg) = None \<and> st = server (run K evs initial_sched)
        \<and> i < length (pendingReceipts st) \<longrightarrow>
        map_get (settledReceipts (settleReceipts cfg clock net st)) (fst (pendingReceipts st ! i))
          = Some (promote (snd (pendingReceipts st ! i))
               (Some (''sim_'' @ show_int (clock (2 * i)) @ ''_'' @ fst (pendingReceipts st ! i))))
        \<and> pendingReceipts (settleReceipts cfg clock net st) = [])
   \<and> (or_null (VERITAS_PROCESS_ID cfg) \<noteq> None \<and> loadWallet cfg = None \<longrightarrow>
        settleToArweave cfg clock net batch = map (failed_result ''No wallet configured'') batch
        \<and> settleReceipts cfg clock net st = st
        \<and> timer cfg clock s = s)
   \<and> no_failed (server (run K evs initial_sched))"
proof (intro conjI impI)
  assume "or_null (VERITAS_PROCESS_ID cfg) = None"
  then show "settleToArweave cfg clock net batch = simulate_all clock 0 batch"
    "length (settleToArweave cfg clock net batch) = length batch"
    by (simp_all add: settleToArweave_def no_process_results length_simulate_all)
next
  assume "or_null (VERITAS_PROCESS_ID cfg) = None \<and> j < length batch"
  then have "settleToArweave cfg clock net batch = simulate_all clock 0 batch"
    and j: "j < length batch"
    by (simp_all add: settleToArweave_def no_process_results)
  with simulate_all_nth [OF j, of clock 0]
  show "settleToArweave cfg clock net batch ! j
          = \<lparr>res_receipt_id = receipt_id (batch ! j),
             res_arweave_tx =
               Some (''sim_'' @ show_int (clock (2 * j)) @ ''_'' @ receipt_id (batch ! j)),
             ao_message_id = Some (''sim_msg_'' @ show_int (clock (2 * j + 1))),
             res_status = RSettled, res_error = None\<rparr>"
    by (simp add: simulated_def)
next
  assume a: "or_null (VERITAS_PROCESS_ID cfg) = None \<and> st = server (run K evs initial_sched)
      \<and> i < length (pendingReceipts st)"
  let ?K = "K\<lparr>verify := (\<lambda>h sg. True)\<rparr>"
  from a have i: "i < length (pendingReceipts st)" by blast
  from a run_filed_ok [of K evs] have ok: "store_ok ?K st" by simp
  let ?batch = "map_values (pendingReceipts st)"
  let ?results = "simulate_all clock 0 ?batch"
  let ?k = "fst (pendingReceipts st ! i)"
  let ?p = "snd (pendingReceipts st ! i)"
  from a have tick: "settleReceipts cfg clock net st = apply_results ?results st"
    by (auto simp: settleReceipts_def settleToArweave_def no_process_results Let_def)
  from i have kp: "(?k, ?p) \<in> set (pendingReceipts st)"
    by (metis nth_mem prod.collapse)
  from i have ib: "i < length ?batch" and bi: "?batch ! i = ?p"
    by (simp_all add: map_values_def)
  have ids: "map res_receipt_id ?results = map fst (pendingReceipts st)"
    by (simp add: simulate_all_ids batch_ids [OF ok])
  with ok have dist: "distinct (map res_receipt_id ?results)"
    by (simp add: store_ok_def)
  from ib have mem: "?results ! i \<in> set ?results"
    by (simp add: length_simulate_all)
  from simulate_all_nth [OF ib, of clock 0] bi pending_entry(2) [OF ok kp]
  have res: "res_receipt_id (?results ! i) = ?k"
    "res_arweave_tx (?results ! i) = Some (''sim_'' @ show_int (clock (2 * i)) @ ''_'' @ ?k)"
    by (simp_all add: simulated_def)
  from pending_entry(1) [OF ok kp] res(1)
  have p: "map_get (pendingReceipts st) (res_receipt_id (?results ! i)) = Some ?p"
    by simp
  from apply_results_promotes_member [OF simulate_all_settled dist mem p] res tick
  show "map_get (settledReceipts (settleReceipts cfg clock net st)) ?k
          = Some (promote ?p (Some (''sim_'' @ show_int (clock (2 * i)) @ ''_'' @ ?k)))"
    by simp
  have "res_receipt_id ` set ?results = receipt_id ` set ?batch"
    using simulate_all_ids [of clock 0 ?batch] by (metis set_map)
  from apply_results_clears [OF ok simulate_all_settled this] tick
  show "pendingReceipts (settleReceipts cfg clock net st) = []"
    by simp
next
  assume a: "or_null (VERITAS_PROCESS_ID cfg) \<noteq> None \<and> loadWallet cfg = None"
  then have r: "config_results cfg clock b = Some (map (failed_result ''No wallet configured'') b)"
    for b
    by (simp add: no_wallet_results)
  show "settleToArweave cfg clock net batch = map (failed_result ''No wallet configured'') batch"
    by (simp add: settleToArweave_def r)
  show "settleReceipts cfg clock net st = st"
    by (simp add: settleReceipts_def settleToArweave_def r failed_results_apply Let_def)
  show "timer cfg clock s = s"
    by (simp add: timer_def r failed_results_apply Let_def)
next
  show "no_failed (server (run K evs initial_sched))"
    by (rule run_no_failed)
qed

lemma show_int_1002: "show_int 1002 = ''1002''"
  by (simp add: show_int_def to_base.simps digit_char_def)

theorem configuration_failures_simulate_or_retry_example:
  "settleToArweave cfg_no_process (ticking 1000) (Threw ''unused'') [pending_1000, pending_3000]
     = [simulated 1000 1001 pending_1000, simulated 1002 1003 pending_3000]
   \<and> res_arweave_tx (settleToArweave cfg_no_process (ticking 1000) (Threw ''unused'')
        [pending_1000, pending_3000] ! 1)
     = Some ''sim_1002_vts_3000cla''
   \<and> map_get (settledReceipts (settleReceipts cfg_no_process (ticking 1000) (Threw ''unused'')
        two_pending)) ''vts_1000cla''
     = Some (promote pending_1000 (Some ''sim_1000_vts_1000cla''))
   \<and> map_get (settledReceipts (settleReceipts cfg_no_process (ticking 1000) (Threw ''unused'')
        two_pending)) ''vts_3000cla''
     = Some (promote pending_3000 (Some ''sim_1002_vts_3000cla''))
   \<and> pendingReceipts (settleReceipts cfg_no_process (ticking 1000) (Threw ''unused'') two_pending)
     = []
   \<and> settleToArweave cfg_no_wallet (steady 2000) (Acked ''m'') [pending_1000]
     = [failed_result ''No wallet configured'' pending_1000]
   \<and> settleReceipts cfg_no_wallet (steady 2000) (Acked ''m'') one_pending = one_pending
   \<and> no_failed (server
        (run toy_crypto [Http witness_post 1000 7, Timer cfg_no_wallet (steady 2000)]
           initial_sched))"
proof -
  have np: "or_null (VERITAS_PROCESS_ID cfg_no_process) = None"
    and nw: "or_null (VERITAS_PROCESS_ID cfg_no_wallet) \<noteq> None \<and> loadWallet cfg_no_wallet = None"
    by (simp_all add: cfg_no_process_def cfg_no_wallet_def or_null_def falsy_def)
  have len: "(0::nat) < length (pendingReceipts two_pending)"
    "(1::nat) < length (pendingReceipts two_pending)"
    "(1::nat) < length [pending_1000, pending_3000]"
    by (simp_all add: two_pending_def)
  have nth: "pendingReceipts two_pending ! 0 = (''vts_1000cla'', pending_1000)"
    "pendingReceipts two_pending ! 1 = (''vts_3000cla'', pending_3000)"
    "pendingReceipts two_pending ! Suc 0 = (''vts_3000cla'', pending_3000)"
    by (simp_all add: two_pending_def)
  have clk: "ticking 1000 0 = 1000" "ticking 1000 (2 * 1) = 1002" "ticking 1000 (2 * 0) = 1000"
    by (simp_all add: ticking_def)
  have reach: "two_pending
      = server (run toy_crypto [Http witness_post 1000 7, Http witness_post 3000 8] initial_sched)"
    by (simp add: run_idle_two idle_two_def)
  from configuration_failures_simulate_or_retry
      [where cfg = cfg_no_process and clock = "ticking 1000" and net = "Threw ''unused''"
         and batch = "[pending_1000, pending_3000]" and j = 1 and K = toy_crypto
         and st = two_pending and i = 0
         and evs = "[Http witness_post 1000 7, Http witness_post 3000 8]"] np len reach
  have a: "settleToArweave cfg_no_process (ticking 1000) (Threw ''unused'')
        [pending_1000, pending_3000]
     = simulate_all (ticking 1000) 0 [pending_1000, pending_3000]"
    "res_arweave_tx (settleToArweave cfg_no_process (ticking 1000) (Threw ''unused'')
        [pending_1000, pending_3000] ! 1)
     = Some ''sim_1002_vts_3000cla''"
    "map_get (settledReceipts (settleReceipts cfg_no_process (ticking 1000) (Threw ''unused'')
        two_pending)) ''vts_1000cla''
     = Some (promote pending_1000 (Some ''sim_1000_vts_1000cla''))"
    "pendingReceipts (settleReceipts cfg_no_process (ticking 1000) (Threw ''unused'') two_pending)
     = []"
    by (simp_all add: nth clk toy_ids show_int_1000 show_int_1002 ticking_def simulated_def)
  from configuration_failures_simulate_or_retry
      [where cfg = cfg_no_process and clock = "ticking 1000" and net = "Threw ''unused''"
         and K = toy_crypto and st = two_pending and i = 1
         and evs = "[Http witness_post 1000 7, Http witness_post 3000 8]"] np len reach
  have a': "map_get (settledReceipts (settleReceipts cfg_no_process (ticking 1000) (Threw ''unused'')
        two_pending)) ''vts_3000cla''
     = Some (promote pending_3000 (Some ''sim_1002_vts_3000cla''))"
    by (simp add: nth clk show_int_1002 ticking_def)
  from configuration_failures_simulate_or_retry
      [where cfg = cfg_no_wallet and clock = "steady 2000" and net = "Acked ''m''"
         and batch = "[pending_1000]" and K = toy_crypto and st = one_pending
         and evs = "[Http witness_post 1000 7, Timer cfg_no_wallet (steady 2000)]"] nw
  have b: "settleToArweave cfg_no_wallet (steady 2000) (Acked ''m'') [pending_1000]
     = [failed_result ''No wallet configured'' pending_1000]"
    "settleReceipts cfg_no_wallet (steady 2000) (Acked ''m'') one_pending = one_pending"
    "no_failed (server
        (run toy_crypto [Http witness_post 1000 7, Timer cfg_no_wallet (steady 2000)]
           initial_sched))"
    by simp_all
  have sim: "simulate_all (ticking 1000) 0 [pending_1000, pending_3000]
      = [simulated 1000 1001 pending_1000, simulated 1002 1003 pending_3000]"
    by (simp add: ticking_def)
  from a a' b sim show ?thesis by simp
qed

text \<open>
  The claim C2 as written has at most one tick in flight. One receipt is witnessed and the
  timer fires twice before the ledger answers: two ticks are in flight, both with the
  same snapshot.
\<close>

theorem two_ticks_in_flight_together:
  "in_flight (run toy_crypto
      [Http witness_post 1000 7, Timer cfg_ok (steady 2000), Timer cfg_ok (steady 12000)] initial_sched)
     = [[pending_1000], [pending_1000]]
   \<and> length (in_flight (run toy_crypto
      [Http witness_post 1000 7, Timer cfg_ok (steady 2000), Timer cfg_ok (steady 12000)] initial_sched)) = 2"
  by (simp add: run_overlap)

text \<open>
  Claim C2, amended. When the pending map is not empty and a process id and a wallet are
  configured, a firing of the timer starts a tick whatever ticks are in flight already:
  its snapshot of the pending map is added to them. When the pending map is empty the
  firing does nothing. When results are applied, a receipt that is no longer pending is
  skipped: its settled record stays as it is and it does not become pending again.
\<close>

theorem timer_starts_tick_whatever_is_in_flight:
  "(pendingReceipts (server s) \<noteq> [] \<and> or_null (VERITAS_PROCESS_ID cfg) \<noteq> None
      \<and> loadWallet cfg \<noteq> None \<longrightarrow>
      timer cfg clock s
        = s\<lparr>in_flight := in_flight s @ [map_values (pendingReceipts (server s))]\<rparr>)
   \<and> (pendingReceipts (server s) = [] \<longrightarrow> timer cfg clock s = s)
   \<and> (map_get (pendingReceipts st) k = None \<longrightarrow>
        map_get (settledReceipts (apply_results results st)) k = map_get (settledReceipts st) k
        \<and> map_get (pendingReceipts (apply_results results st)) k = None)"
  using timer_starts_tick [of s cfg clock] apply_results_skips [of st k results]
  by (simp add: timer_def)

theorem timer_starts_tick_whatever_is_in_flight_example:
  "timer cfg_ok (steady 12000) \<lparr>server = one_pending, in_flight = [[pending_1000]]\<rparr>
     = \<lparr>server = one_pending, in_flight = [[pending_1000], [pending_1000]]\<rparr>
   \<and> timer cfg_ok (steady 12000) initial_sched = initial_sched
   \<and> map_get (settledReceipts (apply_results (net_results (Acked ''m2'') [pending_1000, pending_3000])
        \<lparr>pendingReceipts = [(''vts_3000cla'', pending_3000)],
         settledReceipts = [(''vts_1000cla'', promote pending_1000 (Some ''m1''))]\<rparr>))
        ''vts_1000cla''
     = Some (promote pending_1000 (Some ''m1''))"
proof -
  have a: "pendingReceipts (server \<lparr>server = one_pending, in_flight = [[pending_1000]]\<rparr>) \<noteq> []
      \<and> or_null (VERITAS_PROCESS_ID cfg_ok) \<noteq> None \<and> loadWallet cfg_ok \<noteq> None"
    by (simp add: one_pending_def cfg_ok_def or_null_def falsy_def)
  have b: "pendingReceipts (server initial_sched) = []"
    by (simp add: initial_sched_def initial_server_def)
  have c: "map_get (pendingReceipts \<lparr>pendingReceipts = [(''vts_3000cla'', pending_3000)],
         settledReceipts = [(''vts_1000cla'', promote pending_1000 (Some ''m1''))]\<rparr>)
         ''vts_1000cla'' = None"
    by (simp add: map_get_def)
  from timer_starts_tick_whatever_is_in_flight [of "\<lparr>server = one_pending, in_flight = [[pending_1000]]\<rparr>" cfg_ok "steady 12000"] a
  have 1: "timer cfg_ok (steady 12000) \<lparr>server = one_pending, in_flight = [[pending_1000]]\<rparr>
     = \<lparr>server = one_pending, in_flight = [[pending_1000], [pending_1000]]\<rparr>"
    by (simp add: one_pending_def map_values_def)
  from timer_starts_tick_whatever_is_in_flight [of initial_sched cfg_ok "steady 12000"] b
  have 2: "timer cfg_ok (steady 12000) initial_sched = initial_sched"
    by simp
  from timer_starts_tick_whatever_is_in_flight [of _ _ _ "\<lparr>pendingReceipts = [(''vts_3000cla'', pending_3000)],
         settledReceipts = [(''vts_1000cla'', promote pending_1000 (Some ''m1''))]\<rparr>"
         "''vts_1000cla''" "net_results (Acked ''m2'') [pending_1000, pending_3000]"] c
  have 3: "map_get (settledReceipts (apply_results (net_results (Acked ''m2'') [pending_1000, pending_3000])
        \<lparr>pendingReceipts = [(''vts_3000cla'', pending_3000)],
         settledReceipts = [(''vts_1000cla'', promote pending_1000 (Some ''m1''))]\<rparr>))
        ''vts_1000cla''
     = Some (promote pending_1000 (Some ''m1''))"
    by (simp add: map_get_def)
  from 1 2 3 show ?thesis by simp
qed


text \<open>
  The claim C3 as written has every id in exactly one map. A record is witnessed, settled
  by a tick with no process id configured, and witnessed again in the same millisecond:
  the same id is now in both maps.
\<close>

theorem rewitnessed_id_in_both_stores:
  "map_get (pendingReceipts (server (run toy_crypto
      [Http witness_post 1000 7, Timer cfg_no_process (steady 1000), Http witness_post 1000 8]
      initial_sched))) ''vts_1000cla''
     = Some pending_1000
   \<and> map_get (settledReceipts (server (run toy_crypto
      [Http witness_post 1000 7, Timer cfg_no_process (steady 1000), Http witness_post 1000 8]
      initial_sched))) ''vts_1000cla''
     = Some (promote pending_1000 (Some ''sim_1000_vts_1000cla''))
   \<and> \<not> disjoint_stores (server (run toy_crypto
      [Http witness_post 1000 7, Timer cfg_no_process (steady 1000), Http witness_post 1000 8]
      initial_sched))"
  by (simp add: run_both_stores map_get_def disjoint_stores_def map_keys_def)

text \<open>
  Claim C3, amended. An id that is in one of the two maps is in one of them after any
  sequence of events, and the id \<open>witnessDecision\<close> creates is in the pending map when it
  returns: a created id is never in neither map. Applying settlement results keeps the
  ids of the two maps together the same and never adds an id to those held in both maps,
  whatever the state; so do a firing of the timer and the completion of a tick.
  \<open>witnessDecision\<close> adds to the ids held in both maps exactly the id it creates when
  that id is already in the settled map, and nothing otherwise. So promotion keeps
  disjoint maps disjoint, and witnessing does when the new id is not settled.
\<close>

theorem created_ids_stay_stored:
  "all_ids (server s) \<subseteq> all_ids (server (run K evs s))
   \<and> all_ids (snd (witnessDecision K now nonce request st))
       = insert (receipt_id (fst (witnessDecision K now nonce request st))) (all_ids st)
   \<and> receipt_id (fst (witnessDecision K now nonce request st))
       \<in> map_keys (pendingReceipts (snd (witnessDecision K now nonce request st)))
   \<and> all_ids (apply_results results st) = all_ids st
   \<and> (disjoint_stores st \<longrightarrow> disjoint_stores (apply_results results st))
   \<and> (disjoint_stores st
        \<and> receipt_id (fst (witnessDecision K now nonce request st)) \<notin> map_keys (settledReceipts st)
        \<longrightarrow> disjoint_stores (snd (witnessDecision K now nonce request st)))
   \<and> both_ids (apply_results results st) \<subseteq> both_ids st
   \<and> both_ids (snd (witnessDecision K now nonce request st))
       = both_ids st
         \<union> ({receipt_id (fst (witnessDecision K now nonce request st))}
              \<inter> map_keys (settledReceipts st))
   \<and> both_ids (server (timer cfg clock s)) \<subseteq> both_ids (server s)
   \<and> both_ids (server (completed i net s)) \<subseteq> both_ids (server s)"
proof -
  have "receipt_id (fst (witnessDecision K now nonce request st))
       \<in> map_keys (pendingReceipts (snd (witnessDecision K now nonce request st)))"
    by (simp add: witnessDecision_parts keys_map_set')
  moreover have "disjoint_stores st \<longrightarrow> disjoint_stores (apply_results results st)"
    using apply_results_disjoint [of st results] by simp
  moreover have "disjoint_stores st
        \<and> receipt_id (fst (witnessDecision K now nonce request st)) \<notin> map_keys (settledReceipts st)
        \<longrightarrow> disjoint_stores (snd (witnessDecision K now nonce request st))"
    using witnessDecision_disjoint [of st K now nonce request] by simp
  ultimately show ?thesis
    using run_all_ids [of s K evs] witnessDecision_all_ids [of K now nonce request st]
      apply_results_all_ids [of results st] apply_results_both_ids [of results st]
      witnessDecision_both_ids [of K now nonce request st]
      timer_both_ids [of cfg clock s] completed_both_ids [of i net s]
    by blast
qed

theorem created_ids_stay_stored_example:
  "all_ids (server (run toy_crypto [Http witness_post 1000 7] initial_sched))
     \<subseteq> all_ids (server (run toy_crypto
          [Http witness_post 1000 7, Timer cfg_ok (steady 2000), Http witness_post 3000 8,
           Timer cfg_ok (steady 12000), Completed 0 (Acked ''m1''), Completed 0 (Acked ''m2'')]
          initial_sched))
   \<and> all_ids (server (run toy_crypto [Http witness_post 1000 7] initial_sched)) = {''vts_1000cla''}
   \<and> disjoint_stores (apply_results (net_results (Acked ''m2'') [pending_1000, pending_3000])
        two_pending)
   \<and> disjoint_stores (snd (witnessDecision toy_crypto 1000 7 (as_WitnessRequest raw_cla)
        initial_server))
   \<and> ''vts_1000cla'' \<in> map_keys (pendingReceipts
        (snd (witnessDecision toy_crypto 1000 7 (as_WitnessRequest raw_cla) initial_server)))
   \<and> both_ids (snd (witnessDecision toy_crypto 1000 8 (as_WitnessRequest raw_cla) settled_once))
       = {''vts_1000cla''}
   \<and> both_ids (snd (witnessDecision toy_crypto 1000 7 (as_WitnessRequest raw_cla) initial_server))
       = {}"
proof -
  have split: "run toy_crypto
          [Http witness_post 1000 7, Timer cfg_ok (steady 2000), Http witness_post 3000 8,
           Timer cfg_ok (steady 12000), Completed 0 (Acked ''m1''), Completed 0 (Acked ''m2'')]
          initial_sched
        = run toy_crypto
          [Timer cfg_ok (steady 2000), Http witness_post 3000 8,
           Timer cfg_ok (steady 12000), Completed 0 (Acked ''m1''), Completed 0 (Acked ''m2'')]
          (run toy_crypto [Http witness_post 1000 7] initial_sched)"
    by (simp add: run_def)
  have d2: "disjoint_stores two_pending"
    by (simp add: disjoint_stores_def two_pending_def map_keys_def)
  have d0: "disjoint_stores initial_server
      \<and> receipt_id (fst (witnessDecision toy_crypto 1000 7 (as_WitnessRequest raw_cla)
             initial_server))
         \<notin> map_keys (settledReceipts initial_server)"
    by (simp add: disjoint_stores_def initial_server_def map_keys_def)
  from created_ids_stay_stored
      [of "run toy_crypto [Http witness_post 1000 7] initial_sched" toy_crypto
      "[Timer cfg_ok (steady 2000), Http witness_post 3000 8,
           Timer cfg_ok (steady 12000), Completed 0 (Acked ''m1''), Completed 0 (Acked ''m2'')]"
      1000 7 "as_WitnessRequest raw_cla" two_pending
      "net_results (Acked ''m2'') [pending_1000, pending_3000]"] d2
  have 1: "all_ids (server (run toy_crypto [Http witness_post 1000 7] initial_sched))
     \<subseteq> all_ids (server (run toy_crypto
          [Http witness_post 1000 7, Timer cfg_ok (steady 2000), Http witness_post 3000 8,
           Timer cfg_ok (steady 12000), Completed 0 (Acked ''m1''), Completed 0 (Acked ''m2'')]
          initial_sched))"
    and 2: "disjoint_stores (apply_results (net_results (Acked ''m2'') [pending_1000, pending_3000])
        two_pending)"
    by (simp_all add: split)
  from created_ids_stay_stored
      [of _ toy_crypto "[]" 1000 7 "as_WitnessRequest raw_cla" initial_server] d0
  have 3: "disjoint_stores (snd (witnessDecision toy_crypto 1000 7 (as_WitnessRequest raw_cla)
        initial_server))"
    and 4: "''vts_1000cla'' \<in> map_keys (pendingReceipts
        (snd (witnessDecision toy_crypto 1000 7 (as_WitnessRequest raw_cla) initial_server)))"
    and 7: "both_ids (snd (witnessDecision toy_crypto 1000 7 (as_WitnessRequest raw_cla)
        initial_server)) = {}"
    by (simp_all add: toy_witnessDecision_1000 keys_map_set' receipt_1000_def both_ids_def
        initial_server_def map_keys_def)
  have 5: "all_ids (server (run toy_crypto [Http witness_post 1000 7] initial_sched))
      = {''vts_1000cla''}"
    by (simp add: run_one_pending all_ids_def one_pending_def map_keys_def)
  from created_ids_stay_stored
      [of _ toy_crypto "[]" 1000 8 "as_WitnessRequest raw_cla" settled_once]
  have 6: "both_ids (snd (witnessDecision toy_crypto 1000 8 (as_WitnessRequest raw_cla)
        settled_once)) = {''vts_1000cla''}"
    by (simp add: toy_witnessDecision_1000 receipt_1000_def both_ids_def settled_once_def
        map_keys_def)
  from 1 2 3 4 5 6 7 show ?thesis by simp
qed





end
